theory Spec2Isabelle
  imports Complex_Main "HOL-Library.Multiset"
begin

section \<open>ASHA as a custom search method: data model\<close>

text \<open>
  A shallow embedding of \<^verbatim>\<open>examples/custom_search_method/asha_search_method/asha.py\<close>.
  Objects mutated in place become records that are passed in and returned; a raised
  exception is a value of type \<open>error\<close>, returned together with the state as the
  mutations performed before the raise left it.

  A \<^verbatim>\<open>uuid.UUID\<close> is only ever compared for equality and used as a dictionary key,
  so a trial identifier is a natural number. Python integers are \<open>int\<close>; the values of
  \<^verbatim>\<open>trial_rungs\<close> are only ever \<^verbatim>\<open>0\<close> or \<^verbatim>\<open>rung_idx + 1\<close>, so they are \<open>nat\<close>.
  A metric is a finite float, read as the real number it denotes (only its order and
  its negation are used).
\<close>

type_synonym uuid = nat

datatype error = AssertionError | KeyError | IndexError | ZeroDivisionError | OverflowError

record TrialMetric =
  request_id :: uuid
  metric :: real
  promoted :: bool

record Rung =
  units_needed :: int
  idx :: int
  metrics :: "TrialMetric list"
  outstanding_trials :: int

record ASHASearchMethodState =
  max_length :: int
  max_trials :: int
  num_rungs :: int
  divisor :: int
  max_concurrent_trials :: int
  is_smaller_better :: bool
  rungs :: "Rung list"
  trial_rungs :: "uuid \<rightharpoonup> nat"
  pending_trials :: int
  completed_trials :: int
  invalid_trials :: int
  early_exit_trials :: "uuid set"
  closed_trials :: "uuid set"

text \<open>\<^verbatim>\<open>TrialMetric(request_id=..., metric=...)\<close>: the flag defaults to \<^verbatim>\<open>False\<close>.\<close>

definition TrialMetric_new :: "uuid \<Rightarrow> real \<Rightarrow> bool \<Rightarrow> TrialMetric" where
  "TrialMetric_new rid m p = \<lparr>request_id = rid, metric = m, promoted = p\<rparr>"

text \<open>\<^verbatim>\<open>Rung(units_needed, idx)\<close>: an empty metrics list, no outstanding trial.\<close>

definition Rung_new :: "int \<Rightarrow> int \<Rightarrow> Rung" where
  "Rung_new u i = \<lparr>units_needed = u, idx = i, metrics = [], outstanding_trials = 0\<rparr>"

text \<open>The operations of \<^verbatim>\<open>determined.searcher\<close>; \<open>'h\<close> is a set of hyperparameters.\<close>

datatype 'h operation = Create uuid 'h | ValidateAfter uuid int | Close uuid | Shutdown

text \<open>\<^verbatim>\<open>sys.float_info.max\<close>, the largest finite double.\<close>

definition float_max :: real where
  "float_max = 2 ^ 1024 - 2 ^ 971"

subsection \<open>Python list primitives\<close>

text \<open>
  \<^verbatim>\<open>xs[i]\<close> for a Python integer \<^verbatim>\<open>i\<close>: a negative index counts from the end, an index
  out of range raises \<^verbatim>\<open>IndexError\<close> (here \<open>None\<close>). The result is the position read.
\<close>

definition py_index :: "'a list \<Rightarrow> int \<Rightarrow> nat option" where
  "py_index xs i =
     (let n = int (length xs)
      in if 0 \<le> i \<and> i < n then Some (nat i)
         else if - n \<le> i \<and> i < 0 then Some (nat (n + i))
         else None)"

text \<open>\<^verbatim>\<open>xs.insert(i, x)\<close> for \<^verbatim>\<open>0 <= i\<close>; an index past the end appends.\<close>

definition list_insert :: "nat \<Rightarrow> 'a \<Rightarrow> 'a list \<Rightarrow> 'a list" where
  "list_insert i x xs = take i xs @ x # drop i xs"

section \<open>The rung: binary search and the Promotion Engine\<close>

text \<open>
  The loop of \<^verbatim>\<open>Rung._search_metric_index\<close> with its two variables \<^verbatim>\<open>i\<close> and \<^verbatim>\<open>j\<close>;
  \<^verbatim>\<open>(i + j) >> 1\<close> is the division by two. It starts at \<^verbatim>\<open>j = len(self.metrics)\<close>,
  which keeps \<^verbatim>\<open>mid\<close> inside the list.
\<close>

function search_loop :: "TrialMetric list \<Rightarrow> real \<Rightarrow> nat \<Rightarrow> nat \<Rightarrow> nat" where
  "search_loop ms m i j =
     (if i < j then
        (let mid = (i + j) div 2
         in if metric (ms ! mid) \<le> m then search_loop ms m (mid + 1) j
            else search_loop ms m i mid)
      else i)"
  by pat_completeness auto
termination
  by (relation "measure (\<lambda>(ms, m, i, j). j - i)") auto

declare search_loop.simps [simp del]

definition search_metric_index :: "Rung \<Rightarrow> real \<Rightarrow> nat" where
  "search_metric_index self m = search_loop (metrics self) m 0 (length (metrics self))"

text \<open>
  \<^verbatim>\<open>Rung.promotions_async\<close>. The two floor divisions raise \<^verbatim>\<open>ZeroDivisionError\<close> for a
  zero divisor, before anything is changed; \<^verbatim>\<open>self.metrics[old_num_promote]\<close> is a
  Python index into the list after the insertion. The result is the list of promoted
  trial ids and the rung as the call leaves it.
\<close>

definition promotions_async ::
  "Rung \<Rightarrow> uuid \<Rightarrow> real \<Rightarrow> int \<Rightarrow> (error + uuid list) \<times> Rung" where
  "promotions_async self rid m d =
     (if d = 0 then (Inl ZeroDivisionError, self)
      else
        let old_num_promote = int (length (metrics self)) div d;
            num_promote = (int (length (metrics self)) + 1) div d;
            index = search_metric_index self m;
            promote_now = (int index < num_promote);
            trial_metric = TrialMetric_new rid m promote_now;
            self1 = self\<lparr>metrics := list_insert index trial_metric (metrics self)\<rparr>
        in if promote_now then (Inr [rid], self1)
           else if num_promote \<noteq> old_num_promote then
             (case py_index (metrics self1) old_num_promote of
                None \<Rightarrow> (Inl IndexError, self1)
              | Some k \<Rightarrow>
                  if \<not> promoted (metrics self1 ! k) then
                    (Inr [request_id (metrics self1 ! k)],
                     self1\<lparr>metrics := (metrics self1)[k := (metrics self1 ! k)\<lparr>promoted := True\<rparr>]\<rparr>)
                  else (Inr [], self1))
           else (Inr [], self1))"

text \<open>
  A sequence of arrivals at one rung, each a trial id with its metric, sent through
  the Promotion Engine one after the other; the first exception ends the sequence.
\<close>

fun insertions :: "int \<Rightarrow> Rung \<Rightarrow> (uuid \<times> real) list \<Rightarrow> error + Rung" where
  "insertions d self [] = Inr self"
| "insertions d self ((rid, m) # xs) =
     (case promotions_async self rid m d of
        (Inl e, self') \<Rightarrow> Inl e
      | (Inr ids, self') \<Rightarrow> insertions d self' xs)"

text \<open>How many entries of a metrics list carry the flag.\<close>

definition num_promoted :: "TrialMetric list \<Rightarrow> nat" where
  "num_promoted ms = length (filter promoted ms)"

text \<open>
  The quota of a rung holding \<open>n\<close> entries is \<open>n div d\<close>; the entries in the first
  quota positions of its metrics list all carry the flag.
\<close>

definition quota_promoted :: "int \<Rightarrow> TrialMetric list \<Rightarrow> bool" where
  "quota_promoted d ms = (\<forall>k. int k < int (length ms) div d \<longrightarrow> promoted (ms ! k))"

section \<open>The search state and the scheduling state machine\<close>

text \<open>
  \<^verbatim>\<open>int(x)\<close> on a float truncates towards zero. The floats of
  \<^verbatim>\<open>ASHASearchMethodState._init_rungs\<close> and of \<^verbatim>\<open>_get_max_concurrent_trials\<close> are read
  as the real numbers they denote: \<^verbatim>\<open>pow\<close> and \<^verbatim>\<open>/\<close> are exact, which is what double
  precision gives as long as the numbers involved stay below \<open>2 ^ 53\<close>; rounding and
  overflow of larger values are outside this model.
\<close>

definition py_trunc :: "real \<Rightarrow> int" where
  "py_trunc x = (if 0 \<le> x then \<lfloor>x\<rfloor> else \<lceil>x\<rceil>)"

text \<open>
  The loop of \<^verbatim>\<open>_init_rungs\<close> over \<^verbatim>\<open>range(self.num_rungs)\<close>, with the running
  \<^verbatim>\<open>units_needed\<close> and the rungs appended so far. The exponent
  \<^verbatim>\<open>num_rungs - idx - 1\<close> is never negative inside the range; dividing by a rate of
  \<^verbatim>\<open>0.0\<close> raises \<^verbatim>\<open>ZeroDivisionError\<close>.
\<close>

fun init_rungs_loop ::
  "int \<Rightarrow> int \<Rightarrow> int \<Rightarrow> nat list \<Rightarrow> int \<Rightarrow> Rung list \<Rightarrow> error + Rung list" where
  "init_rungs_loop ml nr d [] u rs = Inr rs"
| "init_rungs_loop ml nr d (i # is) u rs =
     (let downsampling_rate = (of_int d :: real) ^ nat (nr - int i - 1)
      in if downsampling_rate = 0 then Inl ZeroDivisionError
         else
           let u' = u + max (py_trunc (of_int ml / downsampling_rate)) 1
           in init_rungs_loop ml nr d is u' (rs @ [Rung_new u' (int i)]))"

definition init_rungs :: "int \<Rightarrow> int \<Rightarrow> int \<Rightarrow> error + Rung list" where
  "init_rungs ml nr d = init_rungs_loop ml nr d [0..<nat nr] 0 []"

text \<open>\<^verbatim>\<open>ASHASearchMethodState.__init__\<close>; an exception of \<^verbatim>\<open>_init_rungs\<close> leaves no object.\<close>

definition ASHASearchMethodState_init ::
  "int \<Rightarrow> int \<Rightarrow> int \<Rightarrow> int \<Rightarrow> int \<Rightarrow> error + ASHASearchMethodState" where
  "ASHASearchMethodState_init ml mt nr d mct =
     (case init_rungs ml nr d of
        Inl e \<Rightarrow> Inl e
      | Inr rs \<Rightarrow>
          Inr \<lparr>max_length = ml, max_trials = mt, num_rungs = nr, divisor = d,
               max_concurrent_trials = mct, is_smaller_better = True,
               rungs = rs, trial_rungs = Map.empty,
               pending_trials = 0, completed_trials = 0, invalid_trials = 0,
               early_exit_trials = {}, closed_trials = {}\<rparr>)"

text \<open>An in-place change of the rung object at position \<open>i\<close> of \<^verbatim>\<open>self.rungs\<close>.\<close>

definition rung_update ::
  "nat \<Rightarrow> (Rung \<Rightarrow> Rung) \<Rightarrow> ASHASearchMethodState \<Rightarrow> ASHASearchMethodState" where
  "rung_update i f s = s\<lparr>rungs := (rungs s)[i := f (rungs s ! i)]\<rparr>"

text \<open>
  What a handler returns: the operations or the exception raised, and the state as the
  call leaves it.
\<close>

type_synonym 'h outcome = "(error + 'h operation list) \<times> ASHASearchMethodState"

subsection \<open>The shutdown sweep\<close>

text \<open>
  The inner loop of \<^verbatim>\<open>_get_close_rungs_ops\<close> over the metrics of one rung; only
  \<^verbatim>\<open>closed_trials\<close> changes.
\<close>

fun close_metrics ::
  "TrialMetric list \<Rightarrow> ASHASearchMethodState \<Rightarrow> 'h operation list \<times> ASHASearchMethodState" where
  "close_metrics [] s = ([], s)"
| "close_metrics (tm # tms) s =
     (if \<not> promoted tm \<and> request_id tm \<notin> closed_trials s then
        (if request_id tm \<notin> early_exit_trials s then
           (let (ops, s') =
                  close_metrics tms (s\<lparr>closed_trials := insert (request_id tm) (closed_trials s)\<rparr>)
            in (Close (request_id tm) # ops, s'))
         else close_metrics tms s)
      else close_metrics tms s)"

text \<open>The outer loop over the rungs, left by \<^verbatim>\<open>break\<close> at the first rung with work in flight.\<close>

fun close_rungs ::
  "Rung list \<Rightarrow> ASHASearchMethodState \<Rightarrow> 'h operation list \<times> ASHASearchMethodState" where
  "close_rungs [] s = ([], s)"
| "close_rungs (r # rs) s =
     (if outstanding_trials r > 0 then ([], s)
      else
        (let (ops1, s1) = close_metrics (metrics r) s;
             (ops2, s2) = close_rungs rs s1
         in (ops1 @ ops2, s2)))"

definition get_close_rungs_ops ::
  "ASHASearchMethodState \<Rightarrow> 'h operation list \<times> ASHASearchMethodState" where
  "get_close_rungs_ops s = close_rungs (rungs s) s"

subsection \<open>The promotion and decision procedure\<close>

text \<open>
  \<^verbatim>\<open>_promote_async\<close> up to the end of its \<^verbatim>\<open>if\<close>/\<^verbatim>\<open>else\<close> ends in one of three ways: an
  exception; falling through to the rest of the body with the operations collected so
  far and \<^verbatim>\<open>added_train_workload\<close>; or the \<^verbatim>\<open>return self._promote_async(...)\<close> inside the
  loop, for a promoted trial that exited early. \<^verbatim>\<open>promotions_async\<close> returns at most one
  id, so the loop body runs at most once.
\<close>

datatype 'h step =
    Raise error ASHASearchMethodState
  | Finish ASHASearchMethodState "'h operation list" bool
  | Cascade ASHASearchMethodState uuid

text \<open>
  The \<^verbatim>\<open>else\<close> branch, for a rung that is not the final one: \<open>s\<close> is the state after
  \<^verbatim>\<open>rung.outstanding_trials -= 1\<close>.
\<close>

definition promote_rung ::
  "ASHASearchMethodState \<Rightarrow> nat \<Rightarrow> uuid \<Rightarrow> real \<Rightarrow> 'h step" where
  "promote_rung s rung_idx rid m =
     (if length (rungs s) \<le> rung_idx + 1 then Raise IndexError s
      else
        (case promotions_async (rungs s ! rung_idx) rid m (divisor s) of
           (Inl e, rung') \<Rightarrow> Raise e (s\<lparr>rungs := (rungs s)[rung_idx := rung']\<rparr>)
         | (Inr [], rung') \<Rightarrow> Finish (s\<lparr>rungs := (rungs s)[rung_idx := rung']\<rparr>) [] False
         | (Inr (p # _), rung') \<Rightarrow>
             (let s2 = s\<lparr>rungs := (rungs s)[rung_idx := rung'],
                         trial_rungs := (trial_rungs s)(p \<mapsto> rung_idx + 1)\<rparr>;
                  s3 = rung_update (rung_idx + 1)
                         (\<lambda>r. r\<lparr>outstanding_trials := outstanding_trials r + 1\<rparr>) s2
              in if p \<notin> early_exit_trials s3 then
                   Finish (s3\<lparr>pending_trials := pending_trials s3 + 1\<rparr>)
                     [ValidateAfter p
                        (max (units_needed (rungs s3 ! (rung_idx + 1))
                               - units_needed (rungs s3 ! rung_idx)) 1)]
                     True
                 else Cascade s3 p)))"

definition promote_step :: "ASHASearchMethodState \<Rightarrow> uuid \<Rightarrow> real \<Rightarrow> 'h step" where
  "promote_step s rid m =
     (case trial_rungs s rid of
        None \<Rightarrow> Raise KeyError s
      | Some rung_idx \<Rightarrow>
          if length (rungs s) \<le> rung_idx then Raise IndexError s
          else
            let s1 = rung_update rung_idx
                       (\<lambda>r. r\<lparr>outstanding_trials := outstanding_trials r - 1\<rparr>) s
            in if int rung_idx = num_rungs s1 - 1 then
                 (let s2 = rung_update rung_idx
                             (\<lambda>r. r\<lparr>metrics := metrics r @ [TrialMetric_new rid m False]\<rparr>) s1
                  in if rid \<notin> early_exit_trials s2 then
                       Finish (s2\<lparr>closed_trials := insert rid (closed_trials s2)\<rparr>) [Close rid] False
                     else Finish s2 [] False)
               else promote_rung s1 rung_idx rid m)"

text \<open>
  The rest of the body of \<^verbatim>\<open>_promote_async\<close>: a new trial when no training workload was
  added and the budget allows, with the identifier \<open>fresh\<close> drawn by \<^verbatim>\<open>uuid.uuid4()\<close> and
  the hyperparameters \<open>hp\<close> drawn by \<^verbatim>\<open>search_space()\<close>; then the shutdown sweep once
  rung 0 holds \<^verbatim>\<open>max_trials\<close> metrics.
\<close>

definition promote_finish ::
  "ASHASearchMethodState \<Rightarrow> 'h operation list \<Rightarrow> bool \<Rightarrow> uuid \<Rightarrow> 'h \<Rightarrow> 'h outcome" where
  "promote_finish s ops added fresh hp =
     (let all_trials = int (card (dom (trial_rungs s))) - invalid_trials s
      in case (if \<not> added \<and> all_trials < max_trials s then
                 (let s1 = s\<lparr>pending_trials := pending_trials s + 1\<rparr>
                  in case rungs s1 of
                       [] \<Rightarrow> (Inl IndexError, s1)
                     | r0 # _ \<Rightarrow>
                         (Inr (ops @ [Create fresh hp, ValidateAfter fresh (units_needed r0)]),
                          s1\<lparr>trial_rungs := (trial_rungs s1)(fresh \<mapsto> 0)\<rparr>))
               else (Inr ops, s)) of
           (Inl e, s2) \<Rightarrow> (Inl e, s2)
         | (Inr ops2, s2) \<Rightarrow>
             (case rungs s2 of
                [] \<Rightarrow> (Inl IndexError, s2)
              | r0 # _ \<Rightarrow>
                  if int (length (metrics r0)) = max_trials s2 then
                    (let (cops, s3) = get_close_rungs_ops s2 in (Inr (ops2 @ cops), s3))
                  else (Inr ops2, s2)))"

text \<open>
  \<^verbatim>\<open>_promote_async\<close>. The recursive call is on the promoted trial, whose entry of
  \<^verbatim>\<open>trial_rungs\<close> was just set to \<^verbatim>\<open>rung_idx + 1\<close>, an index inside \<^verbatim>\<open>self.rungs\<close>.
\<close>

definition rungs_above :: "ASHASearchMethodState \<Rightarrow> uuid \<Rightarrow> nat" where
  "rungs_above s rid =
     (case trial_rungs s rid of None \<Rightarrow> 0 | Some rung_idx \<Rightarrow> length (rungs s) - rung_idx)"

function promote_async ::
  "ASHASearchMethodState \<Rightarrow> uuid \<Rightarrow> real \<Rightarrow> uuid \<Rightarrow> 'h \<Rightarrow> 'h outcome" where
  "promote_async s rid m fresh hp =
     (case promote_step s rid m :: 'h step of
        Raise e s' \<Rightarrow> (Inl e, s')
      | Finish s' ops added \<Rightarrow> promote_finish s' ops added fresh hp
      | Cascade s' p \<Rightarrow> promote_async s' p float_max fresh hp)"
  by pat_completeness auto
termination
proof (relation "measure (\<lambda>(s, rid, m, fresh, hp). rungs_above s rid)")
  show "wf (measure (\<lambda>(s, rid, m, fresh, hp). rungs_above s rid))" by simp
next
  fix s :: ASHASearchMethodState and rid :: uuid and m :: real and fresh :: uuid
    and hp :: 'h and s' p
  assume "(promote_step s rid m :: 'h step) = Cascade s' p"
  then have "rungs_above s' p < rungs_above s rid"
    by (auto simp: promote_step_def promote_rung_def rungs_above_def rung_update_def Let_def
        split: option.splits if_splits prod.splits sum.splits list.splits)
  then show "((s', p, float_max, fresh, hp), (s, rid, m, fresh, hp))
      \<in> measure (\<lambda>(s, rid, m, fresh, hp). rungs_above s rid)" by simp
qed

declare promote_async.simps [simp del]

text \<open>
  \<^verbatim>\<open>_promote_async\<close> with a bound on the number of nested invocations: \<open>None\<close> when the
  bound is used up before the procedure returns.
\<close>

fun promote_async_fuel ::
  "nat \<Rightarrow> ASHASearchMethodState \<Rightarrow> uuid \<Rightarrow> real \<Rightarrow> uuid \<Rightarrow> 'h \<Rightarrow> 'h outcome option" where
  "promote_async_fuel 0 s rid m fresh hp = None"
| "promote_async_fuel (Suc n) s rid m fresh hp =
     (case promote_step s rid m :: 'h step of
        Raise e s' \<Rightarrow> Some (Inl e, s')
      | Finish s' ops added \<Rightarrow> Some (promote_finish s' ops added fresh hp)
      | Cascade s' p \<Rightarrow> promote_async_fuel n s' p float_max fresh hp)"

subsection \<open>The event handlers\<close>

text \<open>
  \<^verbatim>\<open>pow(base, e)\<close> on two Python integers: an integer for \<^verbatim>\<open>e >= 0\<close>, the float
  \<^verbatim>\<open>1 / base ** -e\<close> otherwise, \<^verbatim>\<open>ZeroDivisionError\<close> for a zero base with a negative
  exponent.
\<close>

definition py_pow :: "int \<Rightarrow> int \<Rightarrow> error + real" where
  "py_pow b e =
     (if 0 \<le> e then Inr (of_int (b ^ nat e))
      else if b = 0 then Inl ZeroDivisionError
      else Inr (1 / of_int (b ^ nat (- e))))"

definition get_max_concurrent_trials :: "ASHASearchMethodState \<Rightarrow> error + int" where
  "get_max_concurrent_trials s =
     (if max_concurrent_trials s > 0 then Inr (min (max_concurrent_trials s) (max_trials s))
      else
        (case py_pow (divisor s) (num_rungs s - 1) of
           Inl e \<Rightarrow> Inl e
         | Inr x \<Rightarrow> Inr (max 1 (min (py_trunc x) (max_trials s)))))"

text \<open>
  The loop of \<^verbatim>\<open>initial_operations\<close> over \<^verbatim>\<open>range(0, N)\<close>; the \<open>k\<close>-th round draws the
  identifier \<open>ids k\<close> and the hyperparameters \<open>hps k\<close>.
\<close>

fun initial_loop ::
  "ASHASearchMethodState \<Rightarrow> (nat \<Rightarrow> uuid) \<Rightarrow> (nat \<Rightarrow> 'h) \<Rightarrow> nat list \<Rightarrow> 'h operation list
     \<Rightarrow> 'h outcome" where
  "initial_loop s ids hps [] ops = (Inr ops, s)"
| "initial_loop s ids hps (k # ks) ops =
     (case rungs s of
        [] \<Rightarrow> (Inl IndexError, s)
      | r0 # _ \<Rightarrow>
          initial_loop
            (s\<lparr>trial_rungs := (trial_rungs s)(ids k \<mapsto> 0),
               pending_trials := pending_trials s + 1\<rparr>)
            ids hps ks
            (ops @ [Create (ids k) (hps k), ValidateAfter (ids k) (units_needed r0)]))"

definition initial_operations ::
  "ASHASearchMethodState \<Rightarrow> (nat \<Rightarrow> uuid) \<Rightarrow> (nat \<Rightarrow> 'h) \<Rightarrow> 'h outcome" where
  "initial_operations s ids hps =
     (case get_max_concurrent_trials s of
        Inl e \<Rightarrow> (Inl e, s)
      | Inr N \<Rightarrow> initial_loop s ids hps [0..<nat N] [])"

definition on_trial_created :: "ASHASearchMethodState \<Rightarrow> uuid \<Rightarrow> 'h outcome" where
  "on_trial_created s rid =
     (if rungs s = [] then (Inl IndexError, s)
      else
        (Inr [],
         (rung_update 0 (\<lambda>r. r\<lparr>outstanding_trials := outstanding_trials r + 1\<rparr>) s)
           \<lparr>trial_rungs := (trial_rungs s)(rid \<mapsto> 0)\<rparr>))"

text \<open>
  The \<^verbatim>\<open>metric: Any\<close> of \<^verbatim>\<open>on_validation_completed\<close> is whatever object the runner
  delivers; \<^verbatim>\<open>isinstance(metric, float)\<close> holds for a float only.
\<close>

datatype pyobj = PyFloat real | PyInt int | PyStr string | PyNone

definition on_validation_completed ::
  "ASHASearchMethodState \<Rightarrow> uuid \<Rightarrow> pyobj \<Rightarrow> int \<Rightarrow> uuid \<Rightarrow> 'h \<Rightarrow> 'h outcome" where
  "on_validation_completed s rid obj train_length fresh hp =
     (case obj of
        PyFloat m \<Rightarrow>
          (let s1 = s\<lparr>pending_trials := pending_trials s - 1\<rparr>;
               m' = (if is_smaller_better s1 = False then m * (- 1) else m)
           in promote_async s1 rid m' fresh hp)
      | _ \<Rightarrow> (Inl AssertionError, s))"

definition on_trial_closed :: "ASHASearchMethodState \<Rightarrow> uuid \<Rightarrow> 'h outcome" where
  "on_trial_closed s rid =
     (let s1 = s\<lparr>completed_trials := completed_trials s + 1,
                 closed_trials := insert rid (closed_trials s)\<rparr>
      in if pending_trials s1 = 0 \<and> completed_trials s1 = max_trials s1
         then (Inr [Shutdown], s1)
         else (Inr [], s1))"

text \<open>
  \<^verbatim>\<open>searcher.ExitedReason\<close> has the members \<^verbatim>\<open>ERRORED\<close>, \<^verbatim>\<open>USER_CANCELLED\<close> and
  \<^verbatim>\<open>INVALID_HP\<close>. The annotation of the parameter is not enforced at run time, so the
  handler can be given any other object, here \<open>NotAMember\<close> with a name for it.
\<close>

datatype ExitedReason = ERRORED | USER_CANCELLED | INVALID_HP | NotAMember string

text \<open>The loop that removes the metrics of one trial from the rungs \<open>0..h\<close>.\<close>

definition purge_metrics :: "uuid \<Rightarrow> nat \<Rightarrow> ASHASearchMethodState \<Rightarrow> ASHASearchMethodState" where
  "purge_metrics rid h s =
     fold (\<lambda>rung_idx. rung_update rung_idx
             (\<lambda>r. r\<lparr>metrics := filter (\<lambda>x. request_id x \<noteq> rid) (metrics r)\<rparr>))
          [0..<Suc h] s"

definition on_trial_exited_early ::
  "ASHASearchMethodState \<Rightarrow> uuid \<Rightarrow> ExitedReason \<Rightarrow> uuid \<Rightarrow> 'h \<Rightarrow> 'h outcome" where
  "on_trial_exited_early s rid exited_reason fresh hp =
     (let s1 = s\<lparr>pending_trials := pending_trials s - 1\<rparr>
      in if exited_reason = INVALID_HP then
           (let s2 = s1\<lparr>early_exit_trials := insert rid (early_exit_trials s1),
                         closed_trials := insert rid (closed_trials s1),
                         invalid_trials := invalid_trials s1 + 1\<rparr>
            in case trial_rungs s2 rid of
                 None \<Rightarrow> (Inl KeyError, s2)
               | Some highest_rung_index \<Rightarrow>
                   if length (rungs s2) \<le> highest_rung_index then (Inl IndexError, s2)
                   else
                     (let s3 = rung_update highest_rung_index
                                 (\<lambda>r. r\<lparr>outstanding_trials := outstanding_trials r - 1\<rparr>) s2;
                          s4 = purge_metrics rid highest_rung_index s3
                      in (Inr [Close rid, Create fresh hp,
                               ValidateAfter fresh (units_needed (rungs s4 ! 0))],
                          s4\<lparr>trial_rungs := (trial_rungs s4)(fresh \<mapsto> 0),
                             pending_trials := pending_trials s4 + 1\<rparr>)))
         else
           promote_async
             (s1\<lparr>early_exit_trials := insert rid (early_exit_trials s1),
                 closed_trials := insert rid (closed_trials s1)\<rparr>)
             rid float_max fresh hp)"

subsection \<open>Runs\<close>

text \<open>
  The events the runner delivers, one at a time, each with what the handler draws
  while it runs: the identifiers of \<^verbatim>\<open>uuid.uuid4()\<close> and the hyperparameters of
  \<^verbatim>\<open>search_space()\<close>.
\<close>

datatype 'h event =
    InitialOperations "nat \<Rightarrow> uuid" "nat \<Rightarrow> 'h"
  | TrialCreated uuid
  | ValidationCompleted uuid pyobj int uuid 'h
  | TrialClosed uuid
  | TrialExitedEarly uuid ExitedReason uuid 'h

fun handle :: "ASHASearchMethodState \<Rightarrow> 'h event \<Rightarrow> 'h outcome" where
  "handle s (InitialOperations ids hps) = initial_operations s ids hps"
| "handle s (TrialCreated rid) = on_trial_created s rid"
| "handle s (ValidationCompleted rid obj train_length fresh hp) =
     on_validation_completed s rid obj train_length fresh hp"
| "handle s (TrialClosed rid) = on_trial_closed s rid"
| "handle s (TrialExitedEarly rid exited_reason fresh hp) =
     on_trial_exited_early s rid exited_reason fresh hp"

text \<open>
  A run: the events handled in order from a state, with the operations emitted so far.
  An exception ends the run; the operations of the handler that raised are never
  returned. The result is the state and all the operations emitted.
\<close>

fun run ::
  "ASHASearchMethodState \<Rightarrow> 'h operation list \<Rightarrow> 'h event list
     \<Rightarrow> ASHASearchMethodState \<times> 'h operation list" where
  "run s emitted [] = (s, emitted)"
| "run s emitted (ev # evs) =
     (case handle s ev of
        (Inl e, s') \<Rightarrow> (s', emitted)
      | (Inr ops, s') \<Rightarrow> run s' (emitted @ ops) evs)"

text \<open>The trial ids of the \<^verbatim>\<open>Close\<close> operations of a list, in order.\<close>

fun closed_ids :: "'h operation list \<Rightarrow> uuid list" where
  "closed_ids [] = []"
| "closed_ids (Close rid # ops) = rid # closed_ids ops"
| "closed_ids (_ # ops) = closed_ids ops"

subsection \<open>Invariants of a run\<close>

text \<open>The state a step of the promotion procedure leaves.\<close>

definition step_state :: "'h step \<Rightarrow> ASHASearchMethodState" where
  "step_state st = (case st of Raise e s \<Rightarrow> s | Finish s ops added \<Rightarrow> s | Cascade s p \<Rightarrow> s)"

text \<open>Every rung other than the final one, at index \<^verbatim>\<open>num_rungs - 1\<close>, has sorted metrics.\<close>

definition sorted_below_final :: "ASHASearchMethodState \<Rightarrow> bool" where
  "sorted_below_final s =
     (\<forall>i < length (rungs s). int i \<noteq> num_rungs s - 1 \<longrightarrow>
        sorted (map metric (metrics (rungs s ! i))))"

text \<open>
  The operations \<open>ops\<close> emitted on the way from \<open>s\<close> to \<open>s'\<close> close each trial at most
  once, close no trial that \<open>s\<close> has in \<^verbatim>\<open>closed_trials\<close>, and \<open>s'\<close> has every trial they
  close, and every trial of \<open>s\<close>, in \<^verbatim>\<open>closed_trials\<close>.
\<close>

definition closes_fresh ::
  "ASHASearchMethodState \<Rightarrow> 'h operation list \<Rightarrow> ASHASearchMethodState \<Rightarrow> bool" where
  "closes_fresh s ops s' =
     (distinct (closed_ids ops) \<and> set (closed_ids ops) \<inter> closed_trials s = {} \<and>
      closed_trials s \<union> set (closed_ids ops) \<subseteq> closed_trials s')"

text \<open>
  The discipline of the runner that the emit-once property rests on: a trial that is in
  \<^verbatim>\<open>closed_trials\<close> reports no further validation and no early exit.
\<close>

fun event_allowed :: "ASHASearchMethodState \<Rightarrow> 'h event \<Rightarrow> bool" where
  "event_allowed s (ValidationCompleted rid obj train_length fresh hp) =
     (rid \<notin> closed_trials s)"
| "event_allowed s (TrialExitedEarly rid exited_reason fresh hp) = (rid \<notin> closed_trials s)"
| "event_allowed s _ = True"

fun disciplined :: "ASHASearchMethodState \<Rightarrow> 'h event list \<Rightarrow> bool" where
  "disciplined s [] = True"
| "disciplined s (ev # evs) =
     (event_allowed s ev \<and>
      (case handle s ev of
         (Inl e, s') \<Rightarrow> True
       | (Inr ops, s') \<Rightarrow> disciplined s' evs))"

section \<open>Properties of the binary search\<close>

lemma search_loop_bounds:
  "i \<le> j \<Longrightarrow> i \<le> search_loop ms m i j \<and> search_loop ms m i j \<le> j"
proof (induction ms m i j rule: search_loop.induct)
  case (1 ms m i j)
  show ?case
  proof (cases "i < j")
    case False
    then show ?thesis using "1.prems" by (simp add: search_loop.simps)
  next
    case True
    let ?mid = "(i + j) div 2"
    have mid: "i \<le> ?mid" "?mid < j" using True by auto
    show ?thesis
    proof (cases "metric (ms ! ?mid) \<le> m")
      case le: True
      have "?mid + 1 \<le> search_loop ms m (?mid + 1) j \<and> search_loop ms m (?mid + 1) j \<le> j"
        using "1.IH"(1)[OF True refl le] mid by simp
      moreover have "search_loop ms m i j = search_loop ms m (?mid + 1) j"
        using True le by (subst search_loop.simps) (simp add: Let_def)
      ultimately show ?thesis using mid by simp
    next
      case gt: False
      have "i \<le> search_loop ms m i ?mid \<and> search_loop ms m i ?mid \<le> ?mid"
        using "1.IH"(2)[OF True refl gt] mid by simp
      moreover have "search_loop ms m i j = search_loop ms m i ?mid"
        using True gt by (subst search_loop.simps) (simp add: Let_def)
      ultimately show ?thesis using mid by simp
    qed
  qed
qed

lemma search_loop_spec:
  "i \<le> j \<Longrightarrow> j \<le> length ms \<Longrightarrow> sorted (map metric ms) \<Longrightarrow>
   (\<forall>p < i. metric (ms ! p) \<le> m) \<Longrightarrow>
   (\<forall>p. j \<le> p \<and> p < length ms \<longrightarrow> m < metric (ms ! p)) \<Longrightarrow>
   (\<forall>p < search_loop ms m i j. metric (ms ! p) \<le> m) \<and>
   (\<forall>p. search_loop ms m i j \<le> p \<and> p < length ms \<longrightarrow> m < metric (ms ! p))"
proof (induction ms m i j rule: search_loop.induct)
  case (1 ms m i j)
  show ?case
  proof (cases "i < j")
    case False
    then have "search_loop ms m i j = i" by (simp add: search_loop.simps)
    moreover have "i = j" using False "1.prems"(1) by simp
    ultimately show ?thesis using "1.prems" by simp
  next
    case True
    let ?mid = "(i + j) div 2"
    have mid: "i \<le> ?mid" "?mid < j" using True by auto
    have srt: "\<And>p q. p \<le> q \<Longrightarrow> q < length ms \<Longrightarrow> metric (ms ! p) \<le> metric (ms ! q)"
      using "1.prems"(3) by (simp add: sorted_iff_nth_mono)
    show ?thesis
    proof (cases "metric (ms ! ?mid) \<le> m")
      case le: True
      have eq: "search_loop ms m i j = search_loop ms m (?mid + 1) j"
        using True le by (subst search_loop.simps) (simp add: Let_def)
      have low: "\<forall>p < ?mid + 1. metric (ms ! p) \<le> m"
      proof (intro allI impI)
        fix p assume "p < ?mid + 1"
        then have "p \<le> ?mid" by simp
        moreover have "?mid < length ms" using mid "1.prems"(2) by simp
        ultimately have "metric (ms ! p) \<le> metric (ms ! ?mid)" by (rule srt)
        then show "metric (ms ! p) \<le> m" using le by simp
      qed
      show ?thesis
        unfolding eq
        using "1.IH"(1)[OF True refl le _ "1.prems"(2,3) low "1.prems"(5)] mid by simp
    next
      case gt: False
      have eq: "search_loop ms m i j = search_loop ms m i ?mid"
        using True gt by (subst search_loop.simps) (simp add: Let_def)
      have high: "\<forall>p. ?mid \<le> p \<and> p < length ms \<longrightarrow> m < metric (ms ! p)"
      proof (intro allI impI)
        fix p assume "?mid \<le> p \<and> p < length ms"
        then have "metric (ms ! ?mid) \<le> metric (ms ! p)" using srt by blast
        then show "m < metric (ms ! p)" using gt by simp
      qed
      have "?mid \<le> length ms" using mid "1.prems"(2) by simp
      then show ?thesis
        unfolding eq
        using "1.IH"(2)[OF True refl gt mid(1) _ "1.prems"(3,4) high] by simp
    qed
  qed
qed

section \<open>Properties of the Promotion Engine\<close>

lemma nth_list_insert:
  "i \<le> length xs \<Longrightarrow>
   list_insert i x xs ! k = (if k < i then xs ! k else if k = i then x else xs ! (k - 1))"
  by (auto simp: list_insert_def nth_append nth_Cons' min_def)

lemma length_list_insert [simp]: "length (list_insert i x xs) = Suc (length xs)"
  by (simp add: list_insert_def)

lemma mset_list_insert [simp]: "mset (list_insert i x xs) = add_mset x (mset xs)"
proof -
  have "mset (take i xs @ drop i xs) = mset xs" by simp
  then show ?thesis unfolding list_insert_def by (simp del: append_take_drop_id)
qed

lemma sorted_list_insert:
  assumes "sorted (map metric ms)" "i \<le> length ms"
    and "\<forall>p < i. metric (ms ! p) \<le> metric x"
    and "\<forall>p. i \<le> p \<and> p < length ms \<longrightarrow> metric x < metric (ms ! p)"
  shows "sorted (map metric (list_insert i x ms))"
proof -
  have "\<And>a b. a \<le> b \<Longrightarrow> b < length (list_insert i x ms) \<Longrightarrow>
       metric (list_insert i x ms ! a) \<le> metric (list_insert i x ms ! b)"
  proof -
    fix a b assume ab: "a \<le> b" "b < length (list_insert i x ms)"
    have srt: "\<And>p q. p \<le> q \<Longrightarrow> q < length ms \<Longrightarrow> metric (ms ! p) \<le> metric (ms ! q)"
      using assms(1) by (simp add: sorted_iff_nth_mono)
    have b: "b \<le> length ms" using ab by simp
    consider "b < i" | "a < i" "b = i" | "a < i" "i < b" | "a = i" "b = i" | "a = i" "i < b"
      | "i < a" using ab by linarith
    then show "metric (list_insert i x ms ! a) \<le> metric (list_insert i x ms ! b)"
    proof cases
      case 1 then show ?thesis using ab assms(2) srt by (simp add: nth_list_insert)
    next
      case 2 then show ?thesis using assms(2,3) by (simp add: nth_list_insert)
    next
      case 3
      have "metric (ms ! a) \<le> metric x" using 3 assms(3) by simp
      moreover have "i \<le> b - 1 \<and> b - 1 < length ms" using 3 b by linarith
      then have "metric x < metric (ms ! (b - 1))" using assms(4) by blast
      ultimately show ?thesis using 3 assms(2) by (simp add: nth_list_insert)
    next
      case 4 then show ?thesis by simp
    next
      case 5
      have "i \<le> b - 1 \<and> b - 1 < length ms" using 5 b by linarith
      then have "metric x < metric (ms ! (b - 1))" using assms(4) by blast
      then show ?thesis using 5 assms(2) by (simp add: nth_list_insert)
    next
      case 6
      have "metric (ms ! (a - 1)) \<le> metric (ms ! (b - 1))" using 6 ab b by (intro srt) auto
      then show ?thesis using 6 ab assms(2) by (simp add: nth_list_insert)
    qed
  qed
  then show ?thesis by (simp add: sorted_iff_nth_mono)
qed

lemma search_metric_index_le: "search_metric_index self m \<le> length (metrics self)"
  using search_loop_bounds[of 0 "length (metrics self)" "metrics self" m]
  by (simp add: search_metric_index_def)

lemma search_metric_index_spec:
  assumes "sorted (map metric (metrics self))"
  shows "(\<forall>p < search_metric_index self m. metric (metrics self ! p) \<le> m) \<and>
         (\<forall>p. search_metric_index self m \<le> p \<and> p < length (metrics self) \<longrightarrow>
              m < metric (metrics self ! p))"
  unfolding search_metric_index_def
  using search_loop_spec[of 0 "length (metrics self)" "metrics self" m] assms by simp

lemma quota_step:
  fixes d n :: int
  assumes "1 \<le> d" "0 \<le> n"
  shows "n div d \<le> (n + 1) div d" "(n + 1) div d \<le> n div d + 1" "0 \<le> n div d" "n div d \<le> n"
proof -
  show "n div d \<le> (n + 1) div d" using assms by (intro zdiv_mono1) auto
  have "(n + 1) div d \<le> (n + d) div d" using assms by (intro zdiv_mono1) auto
  also have "\<dots> = n div d + 1" using assms by simp
  finally show "(n + 1) div d \<le> n div d + 1" .
  show "0 \<le> n div d" using assms by (simp add: pos_imp_zdiv_nonneg_iff)
  show "n div d \<le> n" using assms by (metis div_by_1 zdiv_mono2 zero_less_one)
qed

lemma py_index_nonneg: "0 \<le> i \<Longrightarrow> i < int (length xs) \<Longrightarrow> py_index xs i = Some (nat i)"
  by (simp add: py_index_def)

lemma promotions_async_step:
  assumes d: "1 \<le> d"
    and srt: "sorted (map metric (metrics self))"
    and quo: "quota_promoted d (metrics self)"
  shows "\<exists>ids self'. promotions_async self rid m d = (Inr ids, self') \<and>
           length ids \<le> 1 \<and>
           length (metrics self') = Suc (length (metrics self)) \<and>
           sorted (map metric (metrics self')) \<and>
           quota_promoted d (metrics self') \<and>
           mset (map (\<lambda>e. (request_id e, metric e)) (metrics self')) =
             add_mset (rid, m) (mset (map (\<lambda>e. (request_id e, metric e)) (metrics self)))"
proof -
  define ms where "ms = metrics self"
  define n where "n = int (length ms)"
  define old where "old = n div d"
  define num where "num = (n + 1) div d"
  define i where "i = search_metric_index self m"
  define tm where "tm = TrialMetric_new rid m (int i < num)"
  define ms1 where "ms1 = list_insert i tm ms"
  have n0: "0 \<le> n" by (simp add: n_def)
  have q: "old \<le> num" "num \<le> old + 1" "0 \<le> old" "old \<le> n"
    using quota_step[OF d n0] by (simp_all add: old_def num_def)
  have i_le: "i \<le> length ms" by (simp add: i_def ms_def search_metric_index_le)
  have spec: "\<forall>p < i. metric (ms ! p) \<le> m"
    "\<forall>p. i \<le> p \<and> p < length ms \<longrightarrow> m < metric (ms ! p)"
    using search_metric_index_spec[OF srt, of m] by (simp_all add: i_def ms_def)
  have tm_simps: "metric tm = m" "request_id tm = rid" "promoted tm = (int i < num)"
    by (simp_all add: tm_def TrialMetric_new_def)
  have len1: "length ms1 = Suc (length ms)" by (simp add: ms1_def)
  have srt1: "sorted (map metric ms1)"
    unfolding ms1_def using srt i_le spec
    by (intro sorted_list_insert) (simp_all add: ms_def tm_simps)
  have mset1: "mset (map (\<lambda>e. (request_id e, metric e)) ms1) =
      add_mset (rid, m) (mset (map (\<lambda>e. (request_id e, metric e)) ms))"
    by (simp add: ms1_def tm_simps)
  have quo_old: "\<And>k. int k < old \<Longrightarrow> promoted (ms ! k)"
    using quo by (simp add: quota_promoted_def ms_def old_def n_def)
  have nth1: "\<And>k. ms1 ! k = (if k < i then ms ! k else if k = i then tm else ms ! (k - 1))"
    unfolding ms1_def using i_le by (rule nth_list_insert)
  have d0: "d \<noteq> 0" using d by simp
  have unf: "promotions_async self rid m d =
     (if int i < num then (Inr [rid], self\<lparr>metrics := ms1\<rparr>)
      else if num \<noteq> old then
        (case py_index ms1 old of
           None \<Rightarrow> (Inl IndexError, self\<lparr>metrics := ms1\<rparr>)
         | Some k \<Rightarrow>
             if \<not> promoted (ms1 ! k) then
               (Inr [request_id (ms1 ! k)],
                self\<lparr>metrics := ms1[k := (ms1 ! k)\<lparr>promoted := True\<rparr>]\<rparr>)
             else (Inr [], self\<lparr>metrics := ms1\<rparr>))
      else (Inr [], self\<lparr>metrics := ms1\<rparr>))"
    using d0 unfolding promotions_async_def Let_def ms1_def tm_def i_def num_def old_def
        n_def ms_def by (simp cong: if_cong option.case_cong)
  show ?thesis
  proof (cases "int i < num")
    case True
    have "quota_promoted d ms1"
      unfolding quota_promoted_def
    proof (intro allI impI)
      fix k assume "int k < int (length ms1) div d"
      then have k: "int k < num" by (simp add: len1 num_def n_def add.commute)
      show "promoted (ms1 ! k)"
      proof (cases "k < i")
        case True
        then have "int k < old" using \<open>int i < num\<close> q by linarith
        then show ?thesis using True quo_old by (simp add: nth1)
      next
        case False
        show ?thesis
        proof (cases "k = i")
          case True then show ?thesis using \<open>int i < num\<close> by (simp add: nth1 tm_simps)
        next
          case False
          with \<open>\<not> k < i\<close> have "int (k - 1) < old" using k q by linarith
          then show ?thesis using False \<open>\<not> k < i\<close> quo_old by (simp add: nth1)
        qed
      qed
    qed
    then show ?thesis using True unf len1 srt1 mset1 by (simp add: ms_def)
  next
    case nopromo: False
    have stay: "\<And>k. int k < old \<Longrightarrow> promoted (ms1 ! k)"
    proof -
      fix k assume "int k < old"
      moreover from this have "k < i" using nopromo q by linarith
      ultimately show "promoted (ms1 ! k)" using quo_old by (simp add: nth1)
    qed
    show ?thesis
    proof (cases "num = old")
      case True
      have "quota_promoted d ms1"
        unfolding quota_promoted_def
      proof (intro allI impI)
        fix k assume "int k < int (length ms1) div d"
        then have "int k < old" using True by (simp add: len1 num_def n_def add.commute)
        then show "promoted (ms1 ! k)" by (rule stay)
      qed
      then show ?thesis using nopromo True unf len1 srt1 mset1 by (simp add: ms_def)
    next
      case False
      then have num: "num = old + 1" using q by linarith
      have "old < int (length ms1)" using q by (simp add: len1 n_def)
      then have pyi: "py_index ms1 old = Some (nat old)" using q by (intro py_index_nonneg) auto
      define k0 where "k0 = nat old"
      have k0: "k0 < length ms1" "int k0 = old" using q \<open>old < int (length ms1)\<close> by (auto simp: k0_def)
      show ?thesis
      proof (cases "promoted (ms1 ! k0)")
        case True
        have "quota_promoted d ms1"
          unfolding quota_promoted_def
        proof (intro allI impI)
          fix k assume "int k < int (length ms1) div d"
          then have "int k < old + 1" using num by (simp add: len1 num_def n_def add.commute)
          then have "int k < old \<or> k = k0" using k0 by linarith
          then show "promoted (ms1 ! k)" using stay True by auto
        qed
        then show ?thesis using nopromo False unf pyi True len1 srt1 mset1
          by (simp add: ms_def k0_def)
      next
        case unp: False
        define ms2 where "ms2 = ms1[k0 := (ms1 ! k0)\<lparr>promoted := True\<rparr>]"
        have res: "promotions_async self rid m d = (Inr [request_id (ms1 ! k0)], self\<lparr>metrics := ms2\<rparr>)"
          using nopromo False unf pyi unp by (simp add: k0_def ms2_def)
        have map_m: "map metric ms2 = map metric ms1"
          unfolding ms2_def using k0 by (simp add: map_update list_update_same_conv)
        have map_p: "map (\<lambda>e. (request_id e, metric e)) ms2 = map (\<lambda>e. (request_id e, metric e)) ms1"
          unfolding ms2_def using k0 by (simp add: map_update list_update_same_conv)
        have "quota_promoted d ms2"
          unfolding quota_promoted_def
        proof (intro allI impI)
          fix k assume "int k < int (length ms2) div d"
          then have "int k < old + 1" using num by (simp add: ms2_def len1 num_def n_def add.commute)
          then have "int k < old \<or> k = k0" using k0 by linarith
          then show "promoted (ms2 ! k)"
          proof
            assume "int k < old"
            then have "promoted (ms1 ! k)" by (rule stay)
            then show ?thesis using k0 by (cases "k = k0") (simp_all add: ms2_def)
          next
            assume "k = k0" then show ?thesis using k0 by (simp add: ms2_def)
          qed
        qed
        moreover have "sorted (map metric ms2)" unfolding map_m by (rule srt1)
        moreover have "mset (map (\<lambda>e. (request_id e, metric e)) ms2) =
            add_mset (rid, m) (mset (map (\<lambda>e. (request_id e, metric e)) ms))"
          unfolding map_p by (rule mset1)
        moreover have "length ms2 = Suc (length ms)" by (simp add: ms2_def len1)
        ultimately show ?thesis using res by (simp add: ms_def)
      qed
    qed
  qed
qed

lemma insertions_invariant:
  assumes "1 \<le> d"
  shows "sorted (map metric (metrics self)) \<Longrightarrow> quota_promoted d (metrics self) \<Longrightarrow>
     \<exists>r. insertions d self xs = Inr r \<and>
       length (metrics r) = length (metrics self) + length xs \<and>
       sorted (map metric (metrics r)) \<and> quota_promoted d (metrics r) \<and>
       mset (map (\<lambda>e. (request_id e, metric e)) (metrics r)) =
         mset (map (\<lambda>e. (request_id e, metric e)) (metrics self)) + mset xs"
proof (induction xs arbitrary: self)
  case Nil
  then show ?case by simp
next
  case (Cons x xs)
  obtain rid m where x: "x = (rid, m)" by (cases x)
  from promotions_async_step[OF assms Cons.prems, of rid m]
  obtain ids self' where st: "promotions_async self rid m d = (Inr ids, self')"
    "length (metrics self') = Suc (length (metrics self))"
    "sorted (map metric (metrics self'))" "quota_promoted d (metrics self')"
    "mset (map (\<lambda>e. (request_id e, metric e)) (metrics self')) =
       add_mset (rid, m) (mset (map (\<lambda>e. (request_id e, metric e)) (metrics self)))"
    by blast
  from Cons.IH[OF st(3,4)] obtain r where r: "insertions d self' xs = Inr r"
    "length (metrics r) = length (metrics self') + length xs"
    "sorted (map metric (metrics r))" "quota_promoted d (metrics r)"
    "mset (map (\<lambda>e. (request_id e, metric e)) (metrics r)) =
       mset (map (\<lambda>e. (request_id e, metric e)) (metrics self')) + mset xs"
    by blast
  have "insertions d self (x # xs) = Inr r" using st(1) r(1) x by simp
  moreover have "length (metrics r) = length (metrics self) + length (x # xs)"
    using r(2) st(2) by simp
  moreover have "mset (map (\<lambda>e. (request_id e, metric e)) (metrics r)) =
       mset (map (\<lambda>e. (request_id e, metric e)) (metrics self)) + mset (x # xs)"
    unfolding r(5) st(5) x by simp
  ultimately show ?case using r(3,4) by blast
qed

lemma prefix_count:
  assumes "\<forall>k < q. P (xs ! k)" "q \<le> length xs"
  shows "q \<le> length (filter P xs)"
proof -
  have "filter P (take q xs) = take q xs"
    using assms by (intro filter_True) (auto simp: in_set_conv_nth)
  then have "length (filter P (take q xs)) = q" using assms(2) by simp
  moreover have "filter P xs = filter P (take q xs) @ filter P (drop q xs)"
    by (metis append_take_drop_id filter_append)
  ultimately show ?thesis by simp
qed

text \<open>
  C1 (as amended). For a reduction factor \<open>d \<ge> 1\<close>, any sequence of insertions into a new
  rung through the Promotion Engine succeeds; afterwards the rung holds exactly the
  inserted entries, sorted ascending by metric, the entries in the first
  \<open>floor(n / d)\<close> positions (the smallest metrics) all carry \<open>promoted\<close>, and so at least
  \<open>floor(n / d)\<close> entries do.
\<close>

theorem promoted_quota_lower_bound:
  assumes "1 \<le> d"
  shows "\<exists>r. insertions d (Rung_new u i) xs = Inr r \<and>
     length (metrics r) = length xs \<and>
     mset (map (\<lambda>e. (request_id e, metric e)) (metrics r)) = mset xs \<and>
     sorted (map metric (metrics r)) \<and>
     (\<forall>k. int k < int (length xs) div d \<longrightarrow> promoted (metrics r ! k)) \<and>
     nat (int (length xs) div d) \<le> num_promoted (metrics r)"
proof -
  have "sorted (map metric (metrics (Rung_new u i)))" "quota_promoted d (metrics (Rung_new u i))"
    by (simp_all add: Rung_new_def quota_promoted_def)
  from insertions_invariant[OF assms this, of xs]
  obtain r where r: "insertions d (Rung_new u i) xs = Inr r"
    "length (metrics r) = length xs" "sorted (map metric (metrics r))"
    "quota_promoted d (metrics r)"
    "mset (map (\<lambda>e. (request_id e, metric e)) (metrics r)) = mset xs"
    by (auto simp: Rung_new_def)
  have q: "\<forall>k. int k < int (length xs) div d \<longrightarrow> promoted (metrics r ! k)"
    using r(4) by (simp add: quota_promoted_def r(2))
  have "int (length xs) div d \<le> int (length xs)"
    using quota_step(4)[OF assms, of "int (length xs)"] by simp
  then have "nat (int (length xs) div d) \<le> length (metrics r)" by (simp add: r(2))
  moreover have "\<forall>k < nat (int (length xs) div d). promoted (metrics r ! k)"
    using q by (simp add: zless_nat_eq_int_zless)
  ultimately have "nat (int (length xs) div d) \<le> num_promoted (metrics r)"
    unfolding num_promoted_def by (intro prefix_count)
  then show ?thesis using r q by blast
qed

theorem promoted_quota_lower_bound_witness:
  "(1::int) \<le> 2 \<and>
   insertions 2 (Rung_new 4 0) [(1, 5), (2, 3), (3, 1), (4, 3)] =
     Inr \<lparr>units_needed = 4, idx = 0,
          metrics = [\<lparr>request_id = 3, metric = 1, promoted = True\<rparr>,
                     \<lparr>request_id = 2, metric = 3, promoted = True\<rparr>,
                     \<lparr>request_id = 4, metric = 3, promoted = False\<rparr>,
                     \<lparr>request_id = 1, metric = 5, promoted = False\<rparr>],
          outstanding_trials = 0\<rparr> \<and>
   nat (int (length [(1::nat, 5::real), (2, 3), (3, 1), (4, 3)]) div 2) \<le>
     num_promoted [\<lparr>request_id = 3, metric = 1, promoted = True\<rparr>,
                     \<lparr>request_id = 2, metric = 3, promoted = True\<rparr>,
                     \<lparr>request_id = 4, metric = 3, promoted = False\<rparr>,
                     \<lparr>request_id = 1, metric = 5, promoted = False\<rparr>]"
proof -
  have ev: "insertions 2 (Rung_new 4 0) [(1, 5), (2, 3), (3, 1), (4, 3)] =
     Inr \<lparr>units_needed = 4, idx = 0,
          metrics = [\<lparr>request_id = 3, metric = 1, promoted = True\<rparr>,
                     \<lparr>request_id = 2, metric = 3, promoted = True\<rparr>,
                     \<lparr>request_id = 4, metric = 3, promoted = False\<rparr>,
                     \<lparr>request_id = 1, metric = 5, promoted = False\<rparr>],
          outstanding_trials = 0\<rparr>"
    by (simp add: promotions_async_def Rung_new_def TrialMetric_new_def search_metric_index_def
        search_loop.simps list_insert_def py_index_def Let_def)
  from promoted_quota_lower_bound[of 2 4 0 "[(1, 5), (2, 3), (3, 1), (4, 3)]"]
  show ?thesis unfolding ev by simp
qed

text \<open>
  C1 (as stated) fails: with reduction factor 2 the metrics 5, 3, 1 arriving in this
  order leave two promoted entries among three, where \<open>floor(3 / 2) = 1\<close>. The second and
  the third arrival are each the best so far, and a promotion is never taken back.
\<close>

theorem promoted_count_counterexample:
  "insertions 2 (Rung_new 4 0) [(1, 5), (2, 3), (3, 1)] =
     Inr \<lparr>units_needed = 4, idx = 0,
          metrics = [\<lparr>request_id = 3, metric = 1, promoted = True\<rparr>,
                     \<lparr>request_id = 2, metric = 3, promoted = True\<rparr>,
                     \<lparr>request_id = 1, metric = 5, promoted = False\<rparr>],
          outstanding_trials = 0\<rparr> \<and>
   num_promoted [\<lparr>request_id = 3, metric = 1, promoted = True\<rparr>,
                 \<lparr>request_id = 2, metric = 3, promoted = True\<rparr>,
                 \<lparr>request_id = 1, metric = 5, promoted = False\<rparr>] \<noteq> nat (3 div 2)"
  by (simp add: promotions_async_def Rung_new_def TrialMetric_new_def search_metric_index_def
      search_loop.simps list_insert_def py_index_def Let_def num_promoted_def)

lemma map_list_insert: "map f (list_insert i x xs) = list_insert i (f x) (map f xs)"
  by (simp add: list_insert_def take_map drop_map)

lemma map_update_flag:
  "map (\<lambda>e. (request_id e, metric e)) (xs[k := (xs ! k)\<lparr>promoted := True\<rparr>]) =
   map (\<lambda>e. (request_id e, metric e)) xs"
proof (cases "k < length xs")
  case True
  then show ?thesis by (simp add: map_update list_update_same_conv)
next
  case False
  then have "xs[k := (xs ! k)\<lparr>promoted := True\<rparr>] = xs" by (intro list_update_beyond) simp
  then show ?thesis by (simp only:)
qed

lemma promotions_async_entries:
  assumes "d \<noteq> 0"
  shows "map (\<lambda>e. (request_id e, metric e)) (metrics (snd (promotions_async self rid m d))) =
         list_insert (search_metric_index self m) (rid, m)
           (map (\<lambda>e. (request_id e, metric e)) (metrics self))"
  using assms
  by (auto simp: promotions_async_def Let_def map_update_flag map_list_insert TrialMetric_new_def
      split: option.split)

text \<open>
  C7. On a rung whose metrics are sorted ascending, the index computed by the binary
  search is the first position whose entry has a metric strictly greater than \<open>m\<close> (the
  length of the list when there is none): every entry before it is at most \<open>m\<close>, every
  entry from it on is greater. The Promotion Engine inserts the new entry at this
  index, hence after all existing entries with an equal metric.
\<close>

theorem search_metric_index_right_biased:
  assumes "sorted (map metric (metrics self))"
  shows "search_metric_index self m \<le> length (metrics self) \<and>
         (\<forall>p < search_metric_index self m. metric (metrics self ! p) \<le> m) \<and>
         (\<forall>p. search_metric_index self m \<le> p \<and> p < length (metrics self) \<longrightarrow>
              m < metric (metrics self ! p)) \<and>
         (d \<noteq> 0 \<longrightarrow>
            map (\<lambda>e. (request_id e, metric e)) (metrics (snd (promotions_async self rid m d))) =
            list_insert (search_metric_index self m) (rid, m)
              (map (\<lambda>e. (request_id e, metric e)) (metrics self)))"
  using search_metric_index_le[of self m] search_metric_index_spec[OF assms, of m]
    promotions_async_entries[of d self rid m] by blast

theorem search_metric_index_right_biased_witness:
  "sorted (map metric (metrics
      \<lparr>units_needed = 4, idx = 0,
       metrics = [\<lparr>request_id = 3, metric = 1, promoted = True\<rparr>,
                  \<lparr>request_id = 2, metric = 3, promoted = False\<rparr>,
                  \<lparr>request_id = 1, metric = 5, promoted = False\<rparr>],
       outstanding_trials = 0\<rparr>)) \<and>
   search_metric_index
      \<lparr>units_needed = 4, idx = 0,
       metrics = [\<lparr>request_id = 3, metric = 1, promoted = True\<rparr>,
                  \<lparr>request_id = 2, metric = 3, promoted = False\<rparr>,
                  \<lparr>request_id = 1, metric = 5, promoted = False\<rparr>],
       outstanding_trials = 0\<rparr> 3 = 2 \<and>
   (2::int) \<noteq> 0 \<and>
   map (\<lambda>e. (request_id e, metric e)) (metrics (snd (promotions_async
      \<lparr>units_needed = 4, idx = 0,
       metrics = [\<lparr>request_id = 3, metric = 1, promoted = True\<rparr>,
                  \<lparr>request_id = 2, metric = 3, promoted = False\<rparr>,
                  \<lparr>request_id = 1, metric = 5, promoted = False\<rparr>],
       outstanding_trials = 0\<rparr> 4 3 2))) = [(3, 1), (2, 3), (4, 3), (1, 5)]"
proof -
  let ?r = "\<lparr>units_needed = 4, idx = 0,
       metrics = [\<lparr>request_id = 3, metric = 1, promoted = True\<rparr>,
                  \<lparr>request_id = 2, metric = 3, promoted = False\<rparr>,
                  \<lparr>request_id = 1, metric = 5, promoted = False\<rparr>],
       outstanding_trials = 0\<rparr>"
  have s: "sorted (map metric (metrics ?r))" by simp
  have i: "search_metric_index ?r 3 = 2"
    by (simp add: search_metric_index_def search_loop.simps Let_def)
  from search_metric_index_right_biased[OF s, of 3 2 4]
  show ?thesis using s i by (simp add: list_insert_def)
qed

section \<open>Properties of the event handlers\<close>

text \<open>
  C5. Handling \<^verbatim>\<open>TrialClosed(trialId)\<close> never raises; it increments \<^verbatim>\<open>completed_trials\<close>,
  adds the trial to \<^verbatim>\<open>closed_trials\<close> and changes nothing else; it returns the single
  operation \<^verbatim>\<open>Shutdown\<close> exactly when, after the increment, \<^verbatim>\<open>pending_trials = 0\<close> and
  \<^verbatim>\<open>completed_trials = max_trials\<close>, and the empty list in every other case.
\<close>

theorem on_trial_closed_shutdown_iff:
  "snd (on_trial_closed s rid :: 'h outcome) =
     s\<lparr>completed_trials := completed_trials s + 1,
       closed_trials := insert rid (closed_trials s)\<rparr> \<and>
   (fst (on_trial_closed s rid :: 'h outcome) = Inr [Shutdown] \<longleftrightarrow>
      pending_trials s = 0 \<and> completed_trials s + 1 = max_trials s) \<and>
   (\<not> (pending_trials s = 0 \<and> completed_trials s + 1 = max_trials s) \<longrightarrow>
      fst (on_trial_closed s rid :: 'h outcome) = Inr [])"
  by (simp add: on_trial_closed_def Let_def)

theorem on_trial_closed_shutdown_iff_witness:
  "fst (on_trial_closed
          \<lparr>max_length = 8, max_trials = 3, num_rungs = 1, divisor = 2,
           max_concurrent_trials = 0, is_smaller_better = True,
           rungs = [Rung_new 8 0], trial_rungs = Map.empty,
           pending_trials = 0, completed_trials = 2, invalid_trials = 0,
           early_exit_trials = {}, closed_trials = {}\<rparr> 7 :: unit outcome) = Inr [Shutdown] \<and>
   fst (on_trial_closed
          \<lparr>max_length = 8, max_trials = 3, num_rungs = 1, divisor = 2,
           max_concurrent_trials = 0, is_smaller_better = True,
           rungs = [Rung_new 8 0], trial_rungs = Map.empty,
           pending_trials = 1, completed_trials = 2, invalid_trials = 0,
           early_exit_trials = {}, closed_trials = {}\<rparr> 7 :: unit outcome) = Inr []"
proof -
  let ?s = "\<lparr>max_length = 8, max_trials = 3, num_rungs = 1, divisor = 2,
           max_concurrent_trials = 0, is_smaller_better = True,
           rungs = [Rung_new 8 0], trial_rungs = Map.empty,
           pending_trials = 0, completed_trials = 2, invalid_trials = 0,
           early_exit_trials = {}, closed_trials = {}\<rparr>"
  let ?t = "\<lparr>max_length = 8, max_trials = 3, num_rungs = 1, divisor = 2,
           max_concurrent_trials = 0, is_smaller_better = True,
           rungs = [Rung_new 8 0], trial_rungs = Map.empty,
           pending_trials = 1, completed_trials = 2, invalid_trials = 0,
           early_exit_trials = {}, closed_trials = {}\<rparr>"
  have "fst (on_trial_closed ?s 7 :: unit outcome) = Inr [Shutdown]"
    by (rule iffD2[OF conjunct1[OF conjunct2[OF on_trial_closed_shutdown_iff]]]) simp
  moreover have "fst (on_trial_closed ?t 7 :: unit outcome) = Inr []"
    by (rule mp[OF conjunct2[OF conjunct2[OF on_trial_closed_shutdown_iff]]]) simp
  ultimately show ?thesis by (rule conjI)
qed

text \<open>
  C10. \<^verbatim>\<open>on_validation_completed\<close> asserts that the metric is a float before anything
  else: for every object that is not a float the handler raises \<^verbatim>\<open>AssertionError\<close> and
  the state is the one it was called with.
\<close>

theorem on_validation_completed_asserts_float:
  assumes "\<forall>m. obj \<noteq> PyFloat m"
  shows "on_validation_completed s rid obj train_length fresh hp = (Inl AssertionError, s)"
  using assms by (cases obj) (simp_all add: on_validation_completed_def)

theorem on_validation_completed_asserts_float_witness:
  "(\<forall>m. PyInt 3 \<noteq> PyFloat m) \<and>
   on_validation_completed
     \<lparr>max_length = 8, max_trials = 3, num_rungs = 1, divisor = 2,
      max_concurrent_trials = 0, is_smaller_better = True,
      rungs = [Rung_new 8 0], trial_rungs = [1 \<mapsto> 0],
      pending_trials = 1, completed_trials = 0, invalid_trials = 0,
      early_exit_trials = {}, closed_trials = {}\<rparr> 1 (PyInt 3) 8 2 () =
   (Inl AssertionError,
     \<lparr>max_length = 8, max_trials = 3, num_rungs = 1, divisor = 2,
      max_concurrent_trials = 0, is_smaller_better = True,
      rungs = [Rung_new 8 0], trial_rungs = [1 \<mapsto> 0],
      pending_trials = 1, completed_trials = 0, invalid_trials = 0,
      early_exit_trials = {}, closed_trials = {}\<rparr>)"
proof -
  have h: "\<forall>m. PyInt 3 \<noteq> PyFloat m" by simp
  show ?thesis by (rule conjI[OF h on_validation_completed_asserts_float[OF h]])
qed

text \<open>
  C8 (as stated) fails: a reason outside the enumeration is not rejected. With one rung
  and one registered trial, the handler given a non-member returns operations, as it
  does for \<^verbatim>\<open>ERRORED\<close>.
\<close>

theorem unknown_reason_counterexample:
  "fst (on_trial_exited_early
     \<lparr>max_length = 8, max_trials = 3, num_rungs = 1, divisor = 2,
      max_concurrent_trials = 0, is_smaller_better = True,
      rungs = [Rung_new 8 0], trial_rungs = [1 \<mapsto> 0],
      pending_trials = 1, completed_trials = 0, invalid_trials = 0,
      early_exit_trials = {}, closed_trials = {}\<rparr> 1 (NotAMember ''TIMEOUT'') 2 ()) =
   Inr [Create 2 (), ValidateAfter 2 8]"
  by (simp add: on_trial_exited_early_def promote_async.simps promote_step_def
      promote_finish_def rung_update_def Rung_new_def TrialMetric_new_def Let_def)

text \<open>
  C8 (as amended). The handler compares the reason with \<^verbatim>\<open>INVALID_HP\<close> only: every other
  value, a member of the enumeration or not, is handled as \<^verbatim>\<open>ERRORED\<close> is. The trial is
  added to \<^verbatim>\<open>early_exit_trials\<close> and \<^verbatim>\<open>closed_trials\<close> and goes through the promotion
  procedure with the largest float as its metric.
\<close>

theorem other_reasons_handled_alike:
  assumes "exited_reason \<noteq> INVALID_HP"
  shows "on_trial_exited_early s rid exited_reason fresh hp =
           on_trial_exited_early s rid ERRORED fresh hp \<and>
         on_trial_exited_early s rid exited_reason fresh hp =
           promote_async
             (s\<lparr>pending_trials := pending_trials s - 1,
                early_exit_trials := insert rid (early_exit_trials s),
                closed_trials := insert rid (closed_trials s)\<rparr>)
             rid float_max fresh hp"
  using assms by (simp add: on_trial_exited_early_def Let_def)

theorem other_reasons_handled_alike_witness:
  "NotAMember ''TIMEOUT'' \<noteq> INVALID_HP \<and>
   on_trial_exited_early
     \<lparr>max_length = 8, max_trials = 3, num_rungs = 1, divisor = 2,
      max_concurrent_trials = 0, is_smaller_better = True,
      rungs = [Rung_new 8 0], trial_rungs = [1 \<mapsto> 0],
      pending_trials = 1, completed_trials = 0, invalid_trials = 0,
      early_exit_trials = {}, closed_trials = {}\<rparr> 1 (NotAMember ''TIMEOUT'') 2 () =
   on_trial_exited_early
     \<lparr>max_length = 8, max_trials = 3, num_rungs = 1, divisor = 2,
      max_concurrent_trials = 0, is_smaller_better = True,
      rungs = [Rung_new 8 0], trial_rungs = [1 \<mapsto> 0],
      pending_trials = 1, completed_trials = 0, invalid_trials = 0,
      early_exit_trials = {}, closed_trials = {}\<rparr> 1 ERRORED 2 ()"
proof -
  have h: "NotAMember ''TIMEOUT'' \<noteq> INVALID_HP" by simp
  show ?thesis by (rule conjI[OF h conjunct1[OF other_reasons_handled_alike[OF h]]])
qed

section \<open>Termination of the promotion procedure\<close>

lemma rungs_above_le: "rungs_above s rid \<le> length (rungs s)"
  by (simp add: rungs_above_def split: option.split)

lemma promote_step_cascade:
  assumes "promote_step s rid m = (Cascade s' p :: 'h step)"
  shows "\<exists>r. trial_rungs s rid = Some r \<and> int r \<noteq> num_rungs s - 1 \<and>
             trial_rungs s' p = Some (Suc r) \<and> Suc r < length (rungs s')"
    and "length (rungs s') = length (rungs s)" and "num_rungs s' = num_rungs s"
    and "rungs_above s' p < rungs_above s rid"
  using assms
  by (auto simp: promote_step_def promote_rung_def rungs_above_def rung_update_def Let_def
      split: option.splits if_splits prod.splits sum.splits list.splits)

lemma promote_async_fuel_enough:
  "rungs_above s rid < n \<Longrightarrow>
   promote_async_fuel n s rid m fresh hp = Some (promote_async s rid m fresh hp)"
proof (induction s rid m fresh hp arbitrary: n rule: promote_async.induct)
  case (1 s rid m fresh hp)
  from "1.prems" obtain k where n: "n = Suc k" by (cases n) auto
  show ?case
  proof (cases "promote_step s rid m :: 'a step")
    case (Raise e s')
    then show ?thesis by (simp add: n promote_async.simps[of s rid m])
  next
    case (Finish s' ops added)
    then show ?thesis by (simp add: n promote_async.simps[of s rid m])
  next
    case (Cascade s' p)
    have "rungs_above s' p < k"
      using promote_step_cascade(4)[OF Cascade] "1.prems" n by simp
    from "1.IH"[OF Cascade this] show ?thesis
      using Cascade by (simp add: n promote_async.simps[of s rid m])
  qed
qed

text \<open>
  C9. \<^verbatim>\<open>_promote_async\<close> returns on every input, and it does so within as many nested
  recursive invocations as there are rungs: run with a bound of one invocation more
  than the length of \<^verbatim>\<open>self.rungs\<close>, it gives the result of the unbounded procedure.
  Whenever it recurses, the call is on a trial whose entry of \<^verbatim>\<open>trial_rungs\<close> was just
  advanced by one, to an index inside the ladder, from a rung that is not the final
  one; the ladder itself is unchanged.
\<close>

theorem promote_async_depth_bounded:
  "promote_async_fuel (Suc (length (rungs s))) s rid m fresh hp =
     Some (promote_async s rid m fresh hp) \<and>
   (promote_step s rid m = (Cascade s' p :: 'h step) \<longrightarrow>
      (\<exists>r. trial_rungs s rid = Some r \<and> int r \<noteq> num_rungs s - 1 \<and>
           trial_rungs s' p = Some (Suc r) \<and> Suc r < length (rungs s')) \<and>
      length (rungs s') = length (rungs s) \<and> num_rungs s' = num_rungs s)"
proof -
  have "rungs_above s rid < Suc (length (rungs s))"
    using rungs_above_le[of s rid] by simp
  then have "promote_async_fuel (Suc (length (rungs s))) s rid m fresh hp =
     Some (promote_async s rid m fresh hp)"
    by (rule promote_async_fuel_enough)
  then show ?thesis using promote_step_cascade(1,2,3)[of s rid m s' p] by blast
qed

theorem promote_async_depth_bounded_witness:
  "let s = \<lparr>max_length = 8, max_trials = 2, num_rungs = 2, divisor = 2,
        max_concurrent_trials = 0, is_smaller_better = True,
        rungs = [\<lparr>units_needed = 4, idx = 0,
                  metrics = [\<lparr>request_id = 1, metric = float_max, promoted = False\<rparr>],
                  outstanding_trials = 1\<rparr>,
                 \<lparr>units_needed = 8, idx = 1, metrics = [], outstanding_trials = 0\<rparr>],
        trial_rungs = [1 \<mapsto> 0, 2 \<mapsto> 0],
        pending_trials = 0, completed_trials = 0, invalid_trials = 0,
        early_exit_trials = {1, 2}, closed_trials = {1, 2}\<rparr>;
       s' = \<lparr>max_length = 8, max_trials = 2, num_rungs = 2, divisor = 2,
        max_concurrent_trials = 0, is_smaller_better = True,
        rungs = [\<lparr>units_needed = 4, idx = 0,
                  metrics = [\<lparr>request_id = 1, metric = float_max, promoted = True\<rparr>,
                             \<lparr>request_id = 2, metric = float_max, promoted = False\<rparr>],
                  outstanding_trials = 0\<rparr>,
                 \<lparr>units_needed = 8, idx = 1, metrics = [], outstanding_trials = 1\<rparr>],
        trial_rungs = [1 \<mapsto> 1, 2 \<mapsto> 0],
        pending_trials = 0, completed_trials = 0, invalid_trials = 0,
        early_exit_trials = {1, 2}, closed_trials = {1, 2}\<rparr>
   in promote_step s 2 float_max = (Cascade s' 1 :: unit step) \<and>
      promote_async_fuel (Suc (length (rungs s))) s 2 float_max 9 () =
        Some (promote_async s 2 float_max 9 ()) \<and>
      length (rungs s') = length (rungs s) \<and> num_rungs s' = num_rungs s"
proof -
  let ?s = "\<lparr>max_length = 8, max_trials = 2, num_rungs = 2, divisor = 2,
      max_concurrent_trials = 0, is_smaller_better = True,
      rungs = [\<lparr>units_needed = 4, idx = 0,
                metrics = [\<lparr>request_id = 1, metric = float_max, promoted = False\<rparr>],
                outstanding_trials = 1\<rparr>,
               \<lparr>units_needed = 8, idx = 1, metrics = [], outstanding_trials = 0\<rparr>],
      trial_rungs = [1 \<mapsto> 0, 2 \<mapsto> 0],
      pending_trials = 0, completed_trials = 0, invalid_trials = 0,
      early_exit_trials = {1, 2}, closed_trials = {1, 2}\<rparr>"
  let ?s' = "\<lparr>max_length = 8, max_trials = 2, num_rungs = 2, divisor = 2,
      max_concurrent_trials = 0, is_smaller_better = True,
      rungs = [\<lparr>units_needed = 4, idx = 0,
                metrics = [\<lparr>request_id = 1, metric = float_max, promoted = True\<rparr>,
                           \<lparr>request_id = 2, metric = float_max, promoted = False\<rparr>],
                outstanding_trials = 0\<rparr>,
               \<lparr>units_needed = 8, idx = 1, metrics = [], outstanding_trials = 1\<rparr>],
      trial_rungs = [1 \<mapsto> 1, 2 \<mapsto> 0],
      pending_trials = 0, completed_trials = 0, invalid_trials = 0,
      early_exit_trials = {1, 2}, closed_trials = {1, 2}\<rparr>"
  have c: "promote_step ?s 2 float_max = (Cascade ?s' 1 :: unit step)"
    by (simp add: promote_step_def promote_rung_def rung_update_def promotions_async_def
        search_metric_index_def search_loop.simps list_insert_def py_index_def
        TrialMetric_new_def Let_def fun_upd_twist)
  note t = promote_async_depth_bounded[where s = ?s and rid = 2 and m = float_max
      and fresh = 9 and hp = "()" and s' = ?s' and p = 1]
  have f: "promote_async_fuel (Suc (length (rungs ?s))) ?s 2 float_max 9 () =
      Some (promote_async ?s 2 float_max 9 ())"
    by (rule conjunct1[OF t])
  have g: "length (rungs ?s') = length (rungs ?s) \<and> num_rungs ?s' = num_rungs ?s"
    by (rule conjunct2[OF mp[OF conjunct2[OF t] c]])
  show ?thesis unfolding Let_def by (rule conjI[OF c conjI[OF f g]])
qed

section \<open>The handler of invalid hyperparameters\<close>

lemma purge_metrics_Suc:
  "purge_metrics rid (Suc h) s =
     rung_update (Suc h) (\<lambda>r. r\<lparr>metrics := filter (\<lambda>x. request_id x \<noteq> rid) (metrics r)\<rparr>)
       (purge_metrics rid h s)"
  by (simp add: purge_metrics_def)

lemma purge_metrics_0:
  "purge_metrics rid 0 s =
     rung_update 0 (\<lambda>r. r\<lparr>metrics := filter (\<lambda>x. request_id x \<noteq> rid) (metrics r)\<rparr>) s"
  by (simp add: purge_metrics_def)

lemma purge_metrics_frame:
  "purge_metrics rid h s = s\<lparr>rungs := rungs (purge_metrics rid h s)\<rparr>"
proof (induction h)
  case 0
  show ?case by (simp add: purge_metrics_0 rung_update_def)
next
  case (Suc h)
  have "purge_metrics rid (Suc h) s =
      (purge_metrics rid h s)\<lparr>rungs := rungs (purge_metrics rid (Suc h) s)\<rparr>"
    by (simp add: purge_metrics_Suc rung_update_def)
  also have "\<dots> = (s\<lparr>rungs := rungs (purge_metrics rid h s)\<rparr>)
      \<lparr>rungs := rungs (purge_metrics rid (Suc h) s)\<rparr>"
    by (subst Suc) (rule refl)
  also have "\<dots> = s\<lparr>rungs := rungs (purge_metrics rid (Suc h) s)\<rparr>" by simp
  finally show ?case .
qed

lemma purge_metrics_length [simp]:
  "length (rungs (purge_metrics rid h s)) = length (rungs s)"
  by (induction h) (simp_all add: purge_metrics_0 purge_metrics_Suc rung_update_def)

lemma purge_metrics_nth:
  "i < length (rungs s) \<Longrightarrow>
   rungs (purge_metrics rid h s) ! i =
     (if i \<le> h
      then (rungs s ! i)\<lparr>metrics := filter (\<lambda>x. request_id x \<noteq> rid) (metrics (rungs s ! i))\<rparr>
      else rungs s ! i)"
proof (induction h)
  case 0
  then show ?case by (auto simp: purge_metrics_0 rung_update_def nth_list_update)
next
  case (Suc h)
  then show ?case
    by (auto simp: purge_metrics_Suc rung_update_def nth_list_update le_Suc_eq)
qed

lemma purge_metrics_fields [simp]:
  "trial_rungs (purge_metrics rid h s) = trial_rungs s"
  "pending_trials (purge_metrics rid h s) = pending_trials s"
  "completed_trials (purge_metrics rid h s) = completed_trials s"
  "invalid_trials (purge_metrics rid h s) = invalid_trials s"
  "early_exit_trials (purge_metrics rid h s) = early_exit_trials s"
  "closed_trials (purge_metrics rid h s) = closed_trials s"
  "max_trials (purge_metrics rid h s) = max_trials s"
  "num_rungs (purge_metrics rid h s) = num_rungs s"
  "divisor (purge_metrics rid h s) = divisor s"
  by (subst purge_metrics_frame, simp)+

text \<open>
  C4. When \<^verbatim>\<open>TrialExitedEarly(trialId, INVALID_HP)\<close> is handled for a trial registered at
  rung \<open>r\<close> of the ladder, the handler returns exactly
  \<^verbatim>\<open>[Close(trialId), Create(freshId), ValidateAfter(freshId, unitsNeeded[0])]\<close>. In the
  state it leaves, the entries of the trial are gone from the metrics of every rung
  \<open>0..r\<close> and the rungs above are as before; \<^verbatim>\<open>outstanding_trials\<close> is one less at rung
  \<open>r\<close> and unchanged elsewhere; the trial is in \<^verbatim>\<open>closed_trials\<close> and
  \<^verbatim>\<open>early_exit_trials\<close>, and \<^verbatim>\<open>invalid_trials\<close> is one more; the fresh trial is registered
  at rung 0; \<^verbatim>\<open>pending_trials\<close>, decremented on entry, is incremented for the
  replacement.
\<close>

theorem invalid_hp_replaces_trial:
  assumes "trial_rungs s rid = Some r" and "r < length (rungs s)"
  shows "let s' = snd (on_trial_exited_early s rid INVALID_HP fresh hp :: 'h outcome) in
     fst (on_trial_exited_early s rid INVALID_HP fresh hp :: 'h outcome) =
       Inr [Close rid, Create fresh hp, ValidateAfter fresh (units_needed (rungs s ! 0))] \<and>
     length (rungs s') = length (rungs s) \<and>
     (\<forall>i < length (rungs s).
        metrics (rungs s' ! i) =
          (if i \<le> r then filter (\<lambda>x. request_id x \<noteq> rid) (metrics (rungs s ! i))
           else metrics (rungs s ! i)) \<and>
        outstanding_trials (rungs s' ! i) =
          (if i = r then outstanding_trials (rungs s ! i) - 1
           else outstanding_trials (rungs s ! i)) \<and>
        units_needed (rungs s' ! i) = units_needed (rungs s ! i) \<and>
        idx (rungs s' ! i) = idx (rungs s ! i)) \<and>
     closed_trials s' = insert rid (closed_trials s) \<and>
     early_exit_trials s' = insert rid (early_exit_trials s) \<and>
     invalid_trials s' = invalid_trials s + 1 \<and>
     trial_rungs s' = (trial_rungs s)(fresh \<mapsto> 0) \<and>
     pending_trials s' = pending_trials s - 1 + 1 \<and>
     completed_trials s' = completed_trials s"
proof -
  define s2 where "s2 = s\<lparr>pending_trials := pending_trials s - 1,
      early_exit_trials := insert rid (early_exit_trials s),
      closed_trials := insert rid (closed_trials s),
      invalid_trials := invalid_trials s + 1\<rparr>"
  define s3 where "s3 = rung_update r (\<lambda>r. r\<lparr>outstanding_trials := outstanding_trials r - 1\<rparr>) s2"
  define s4 where "s4 = purge_metrics rid r s3"
  have len3: "length (rungs s3) = length (rungs s)"
    by (simp add: s3_def s2_def rung_update_def)
  have nth3: "\<And>i. i < length (rungs s) \<Longrightarrow> rungs s3 ! i =
      (if i = r then (rungs s ! i)\<lparr>outstanding_trials := outstanding_trials (rungs s ! i) - 1\<rparr>
       else rungs s ! i)"
    by (simp add: s3_def s2_def rung_update_def nth_list_update)
  have res: "on_trial_exited_early s rid INVALID_HP fresh hp =
      (Inr [Close rid, Create fresh hp, ValidateAfter fresh (units_needed (rungs s4 ! 0))],
       s4\<lparr>trial_rungs := (trial_rungs s4)(fresh \<mapsto> 0),
          pending_trials := pending_trials s4 + 1\<rparr>)"
    using assms
    by (simp add: on_trial_exited_early_def Let_def s4_def s3_def s2_def rung_update_def)
  have len4: "length (rungs s4) = length (rungs s)" by (simp add: s4_def len3)
  have nth4: "\<And>i. i < length (rungs s) \<Longrightarrow> rungs s4 ! i =
      (if i \<le> r
       then (rungs s3 ! i)\<lparr>metrics := filter (\<lambda>x. request_id x \<noteq> rid) (metrics (rungs s3 ! i))\<rparr>
       else rungs s3 ! i)"
    unfolding s4_def using len3 by (intro purge_metrics_nth) simp
  have u0: "units_needed (rungs s4 ! 0) = units_needed (rungs s ! 0)"
  proof -
    have "0 < length (rungs s)" using assms(2) by linarith
    then show ?thesis by (simp add: nth4 nth3)
  qed
  have f4: "closed_trials s4 = insert rid (closed_trials s)"
    "early_exit_trials s4 = insert rid (early_exit_trials s)"
    "invalid_trials s4 = invalid_trials s + 1"
    "trial_rungs s4 = trial_rungs s"
    "pending_trials s4 = pending_trials s - 1"
    "completed_trials s4 = completed_trials s"
    by (simp_all add: s4_def s3_def s2_def rung_update_def)
  have rungs_each: "\<forall>i < length (rungs s).
        metrics (rungs s4 ! i) =
          (if i \<le> r then filter (\<lambda>x. request_id x \<noteq> rid) (metrics (rungs s ! i))
           else metrics (rungs s ! i)) \<and>
        outstanding_trials (rungs s4 ! i) =
          (if i = r then outstanding_trials (rungs s ! i) - 1
           else outstanding_trials (rungs s ! i)) \<and>
        units_needed (rungs s4 ! i) = units_needed (rungs s ! i) \<and>
        idx (rungs s4 ! i) = idx (rungs s ! i)"
    by (simp add: nth4 nth3)
  show ?thesis
    unfolding Let_def res using u0 len4 f4 rungs_each by simp
qed

theorem invalid_hp_replaces_trial_witness:
  "let s = \<lparr>max_length = 8, max_trials = 4, num_rungs = 2, divisor = 2,
             max_concurrent_trials = 0, is_smaller_better = True,
             rungs = [\<lparr>units_needed = 4, idx = 0,
                       metrics = [\<lparr>request_id = 1, metric = 1, promoted = True\<rparr>,
                                  \<lparr>request_id = 2, metric = 3, promoted = False\<rparr>],
                       outstanding_trials = 0\<rparr>,
                      \<lparr>units_needed = 8, idx = 1, metrics = [], outstanding_trials = 1\<rparr>],
             trial_rungs = [1 \<mapsto> 1, 2 \<mapsto> 0],
             pending_trials = 1, completed_trials = 0, invalid_trials = 0,
             early_exit_trials = {}, closed_trials = {}\<rparr>;
       s' = snd (on_trial_exited_early s 1 INVALID_HP 3 () :: unit outcome)
   in trial_rungs s 1 = Some 1 \<and> 1 < length (rungs s) \<and>
      fst (on_trial_exited_early s 1 INVALID_HP 3 () :: unit outcome) =
        Inr [Close 1, Create 3 (), ValidateAfter 3 4] \<and>
      closed_trials s' = {1} \<and> invalid_trials s' = 1 \<and> pending_trials s' = 1"
proof -
  let ?s = "\<lparr>max_length = 8, max_trials = 4, num_rungs = 2, divisor = 2,
             max_concurrent_trials = 0, is_smaller_better = True,
             rungs = [\<lparr>units_needed = 4, idx = 0,
                       metrics = [\<lparr>request_id = 1, metric = 1, promoted = True\<rparr>,
                                  \<lparr>request_id = 2, metric = 3, promoted = False\<rparr>],
                       outstanding_trials = 0\<rparr>,
                      \<lparr>units_needed = 8, idx = 1, metrics = [], outstanding_trials = 1\<rparr>],
             trial_rungs = [1 \<mapsto> 1, 2 \<mapsto> 0],
             pending_trials = 1, completed_trials = 0, invalid_trials = 0,
             early_exit_trials = {}, closed_trials = {}\<rparr>"
  have a: "trial_rungs ?s 1 = Some 1" by simp
  have b: "1 < length (rungs ?s)" by simp
  note t = invalid_hp_replaces_trial[where 'h = unit, OF a b, of 3 "()", unfolded Let_def]
  have c: "fst (on_trial_exited_early ?s 1 INVALID_HP 3 () :: unit outcome) =
        Inr [Close 1, Create 3 (), ValidateAfter 3 4]"
    using conjunct1[OF t] by simp
  have d: "closed_trials (snd (on_trial_exited_early ?s 1 INVALID_HP 3 () :: unit outcome)) = {1}"
    using t by simp
  have e: "invalid_trials (snd (on_trial_exited_early ?s 1 INVALID_HP 3 () :: unit outcome)) = 1"
    using t by simp
  have f: "pending_trials (snd (on_trial_exited_early ?s 1 INVALID_HP 3 () :: unit outcome)) = 1"
    using t by simp
  show ?thesis unfolding Let_def using a b c d e f by (intro conjI)
qed

section \<open>Sortedness of the rungs below the final one\<close>

lemma map_metric_update_flag:
  "map metric (xs[k := (xs ! k)\<lparr>promoted := True\<rparr>]) = map metric xs"
proof (cases "k < length xs")
  case True
  then show ?thesis by (simp add: map_update list_update_same_conv)
next
  case False
  then have "xs[k := (xs ! k)\<lparr>promoted := True\<rparr>] = xs" by (intro list_update_beyond) simp
  then show ?thesis by (simp only:)
qed

lemma promotions_async_sorted:
  assumes "sorted (map metric (metrics self))"
  shows "sorted (map metric (metrics (snd (promotions_async self rid m d))))"
proof (cases "d = 0")
  case True
  then show ?thesis using assms by (simp add: promotions_async_def)
next
  case False
  define i where "i = search_metric_index self m"
  define tm where "tm = TrialMetric_new rid m (int i < (int (length (metrics self)) + 1) div d)"
  define ms1 where "ms1 = list_insert i tm (metrics self)"
  have "metric tm = m" by (simp add: tm_def TrialMetric_new_def)
  then have s1: "sorted (map metric ms1)"
    unfolding ms1_def
    using assms search_metric_index_le[of self m] search_metric_index_spec[OF assms, of m]
    by (intro sorted_list_insert) (simp_all add: i_def)
  have "metrics (snd (promotions_async self rid m d)) = ms1 \<or>
        (\<exists>k. metrics (snd (promotions_async self rid m d)) = ms1[k := (ms1 ! k)\<lparr>promoted := True\<rparr>])"
    using False
    by (auto simp: promotions_async_def Let_def ms1_def tm_def i_def split: option.split)
  then show ?thesis using s1 by (auto simp: map_metric_update_flag)
qed

lemma sorted_below_final_cong:
  "rungs s' = rungs s \<Longrightarrow> num_rungs s' = num_rungs s \<Longrightarrow>
   sorted_below_final s' = sorted_below_final s"
  by (simp add: sorted_below_final_def)

lemma sorted_below_final_update:
  assumes "sorted_below_final s"
    and "int i \<noteq> num_rungs s - 1 \<Longrightarrow> i < length (rungs s) \<Longrightarrow> sorted (map metric (metrics r))"
    and "rungs s' = (rungs s)[i := r]" "num_rungs s' = num_rungs s"
  shows "sorted_below_final s'"
  unfolding sorted_below_final_def
proof (intro allI impI)
  fix k assume k: "k < length (rungs s')" "int k \<noteq> num_rungs s' - 1"
  then have k': "k < length (rungs s)" "int k \<noteq> num_rungs s - 1" using assms(3,4) by simp_all
  show "sorted (map metric (metrics (rungs s' ! k)))"
  proof (cases "k = i")
    case True
    then show ?thesis using assms(2,3) k' by simp
  next
    case False
    then show ?thesis using assms(1,3) k' by (simp add: sorted_below_final_def)
  qed
qed

lemma rung_update_simps [simp]:
  "length (rungs (rung_update i f s)) = length (rungs s)"
  "num_rungs (rung_update i f s) = num_rungs s"
  "trial_rungs (rung_update i f s) = trial_rungs s"
  "closed_trials (rung_update i f s) = closed_trials s"
  "early_exit_trials (rung_update i f s) = early_exit_trials s"
  "divisor (rung_update i f s) = divisor s"
  by (simp_all add: rung_update_def)

lemma sorted_below_final_fields [simp]:
  "sorted_below_final (s\<lparr>trial_rungs := a\<rparr>) = sorted_below_final s"
  "sorted_below_final (s\<lparr>pending_trials := b\<rparr>) = sorted_below_final s"
  "sorted_below_final (s\<lparr>completed_trials := c\<rparr>) = sorted_below_final s"
  "sorted_below_final (s\<lparr>invalid_trials := d\<rparr>) = sorted_below_final s"
  "sorted_below_final (s\<lparr>early_exit_trials := e\<rparr>) = sorted_below_final s"
  "sorted_below_final (s\<lparr>closed_trials := f\<rparr>) = sorted_below_final s"
  by (simp_all add: sorted_below_final_def)

lemma sorted_below_final_outstanding:
  assumes "sorted_below_final s"
  shows "sorted_below_final (rung_update i (\<lambda>r. r\<lparr>outstanding_trials := g r\<rparr>) s)"
proof (rule sorted_below_final_update[OF assms])
  show "rungs (rung_update i (\<lambda>r. r\<lparr>outstanding_trials := g r\<rparr>) s) =
      (rungs s)[i := (rungs s ! i)\<lparr>outstanding_trials := g (rungs s ! i)\<rparr>]"
    by (simp add: rung_update_def)
  show "num_rungs (rung_update i (\<lambda>r. r\<lparr>outstanding_trials := g r\<rparr>) s) = num_rungs s" by simp
  show "sorted (map metric (metrics ((rungs s ! i)\<lparr>outstanding_trials := g (rungs s ! i)\<rparr>)))"
    if "int i \<noteq> num_rungs s - 1" "i < length (rungs s)"
    using that assms by (simp add: sorted_below_final_def)
qed

lemma sorted_below_final_at_final:
  assumes "sorted_below_final s" "int i = num_rungs s - 1"
  shows "sorted_below_final (rung_update i f s)"
proof (rule sorted_below_final_update[OF assms(1)])
  show "rungs (rung_update i f s) = (rungs s)[i := f (rungs s ! i)]"
    by (simp add: rung_update_def)
  show "sorted (map metric (metrics (f (rungs s ! i))))"
    if "int i \<noteq> num_rungs s - 1" using that assms(2) by simp
qed simp

lemma sorted_below_final_promotions:
  assumes "sorted_below_final s"
  shows "sorted_below_final
           (s\<lparr>rungs := (rungs s)[i := snd (promotions_async (rungs s ! i) rid m d)]\<rparr>)"
proof (rule sorted_below_final_update[OF assms])
  show "sorted (map metric (metrics (snd (promotions_async (rungs s ! i) rid m d))))"
    if "int i \<noteq> num_rungs s - 1" "i < length (rungs s)"
    using that assms by (intro promotions_async_sorted) (simp add: sorted_below_final_def)
qed simp_all

lemma step_state_simps [simp]:
  "step_state (Raise e s) = s" "step_state (Finish s ops added) = s"
  "step_state (Cascade s p) = s"
  by (simp_all add: step_state_def)

lemma promote_rung_sorted:
  assumes "sorted_below_final s"
  shows "sorted_below_final (step_state (promote_rung s r rid m :: 'h step))"
proof -
  obtain res rung' where pa: "promotions_async (rungs s ! r) rid m (divisor s) = (res, rung')"
    by (cases "promotions_async (rungs s ! r) rid m (divisor s)")
  define s2 where "s2 = s\<lparr>rungs := (rungs s)[r := rung']\<rparr>"
  have s2: "sorted_below_final s2"
    using sorted_below_final_promotions[OF assms, of r rid m "divisor s"] pa
    by (simp add: s2_def)
  have s3: "sorted_below_final
      (rung_update (r + 1) (\<lambda>r. r\<lparr>outstanding_trials := outstanding_trials r + 1\<rparr>)
         (s2\<lparr>trial_rungs := tr\<rparr>))" for tr
    by (rule sorted_below_final_outstanding) (simp add: s2)
  have s3': "sorted_below_final
      (rung_update (Suc r) (\<lambda>r. r\<lparr>outstanding_trials := outstanding_trials r + 1\<rparr>)
         (s\<lparr>rungs := (rungs s)[r := rung'], trial_rungs := tr\<rparr>))" for tr
    using s3[of tr] by (simp add: s2_def)
  show ?thesis
    using assms s2 s3' pa
    by (simp add: promote_rung_def Let_def s2_def split: sum.split list.split)
qed

lemma promote_step_sorted:
  assumes "sorted_below_final s"
  shows "sorted_below_final (step_state (promote_step s rid m :: 'h step))"
proof (cases "trial_rungs s rid")
  case None
  then show ?thesis using assms by (simp add: promote_step_def)
next
  case (Some r)
  define s1 where "s1 = rung_update r (\<lambda>r. r\<lparr>outstanding_trials := outstanding_trials r - 1\<rparr>) s"
  have s1: "sorted_below_final s1"
    unfolding s1_def by (rule sorted_below_final_outstanding[OF assms])
  have final: "sorted_below_final
      (rung_update r (\<lambda>r. r\<lparr>metrics := metrics r @ [TrialMetric_new rid m False]\<rparr>) s1)"
    if "int r = num_rungs s - 1"
    by (rule sorted_below_final_at_final[OF s1]) (simp add: s1_def that)
  have rung: "sorted_below_final (step_state (promote_rung s1 r rid m :: 'h step))"
    by (rule promote_rung_sorted[OF s1])
  show ?thesis
    using Some assms final rung
    by (simp add: promote_step_def Let_def s1_def)
qed

lemma close_metrics_frame:
  "snd (close_metrics tms s :: 'h operation list \<times> ASHASearchMethodState) =
     s\<lparr>closed_trials := closed_trials (snd (close_metrics tms s :: 'h operation list \<times> ASHASearchMethodState))\<rparr>"
proof (induction tms arbitrary: s)
  case Nil
  show ?case by simp
next
  case (Cons tm tms)
  let ?s1 = "s\<lparr>closed_trials := insert (request_id tm) (closed_trials s)\<rparr>"
  have "snd (close_metrics tms ?s1 :: 'h operation list \<times> ASHASearchMethodState) =
      s\<lparr>closed_trials := closed_trials (snd (close_metrics tms ?s1 :: 'h operation list \<times> ASHASearchMethodState))\<rparr>"
    by (subst Cons.IH) simp
  then show ?case using Cons.IH[of s] by (simp add: split_beta)
qed

lemma close_rungs_frame:
  "snd (close_rungs rs s :: 'h operation list \<times> ASHASearchMethodState) =
     s\<lparr>closed_trials := closed_trials (snd (close_rungs rs s :: 'h operation list \<times> ASHASearchMethodState))\<rparr>"
proof (induction rs arbitrary: s)
  case Nil
  show ?case by simp
next
  case (Cons r rs)
  let ?s1 = "snd (close_metrics (metrics r) s :: 'h operation list \<times> ASHASearchMethodState)"
  have 1: "?s1 = s\<lparr>closed_trials := closed_trials ?s1\<rparr>" by (rule close_metrics_frame)
  have "snd (close_rungs rs ?s1 :: 'h operation list \<times> ASHASearchMethodState) =
      ?s1\<lparr>closed_trials := closed_trials (snd (close_rungs rs ?s1 :: 'h operation list \<times> ASHASearchMethodState))\<rparr>"
    by (rule Cons.IH)
  also have "\<dots> = s\<lparr>closed_trials := closed_trials (snd (close_rungs rs ?s1 :: 'h operation list \<times> ASHASearchMethodState))\<rparr>"
    by (subst 1) simp
  finally show ?case by (simp add: split_beta)
qed

lemma get_close_rungs_ops_frame:
  "snd (get_close_rungs_ops s :: 'h operation list \<times> ASHASearchMethodState) =
     s\<lparr>closed_trials := closed_trials (snd (get_close_rungs_ops s :: 'h operation list \<times> ASHASearchMethodState))\<rparr>"
  unfolding get_close_rungs_ops_def by (rule close_rungs_frame)

lemma get_close_rungs_ops_sorted [simp]:
  "sorted_below_final (snd (get_close_rungs_ops s :: 'h operation list \<times> ASHASearchMethodState)) =
   sorted_below_final s"
  by (subst get_close_rungs_ops_frame) simp

lemma promote_finish_sorted:
  assumes "sorted_below_final s"
  shows "sorted_below_final (snd (promote_finish s ops added fresh hp))"
  using assms
  by (auto simp: promote_finish_def Let_def split_beta split: list.split)

lemma promote_async_sorted:
  "sorted_below_final s \<Longrightarrow> sorted_below_final (snd (promote_async s rid m fresh hp))"
proof (induction s rid m fresh hp rule: promote_async.induct)
  case (1 s rid m fresh hp)
  have st: "sorted_below_final (step_state (promote_step s rid m :: 'a step))"
    by (rule promote_step_sorted[OF "1.prems"])
  show ?case
  proof (cases "promote_step s rid m :: 'a step")
    case (Raise e s')
    then show ?thesis using st by (simp add: promote_async.simps[of s rid m])
  next
    case (Finish s' ops added)
    then show ?thesis
      using st promote_finish_sorted[of s' ops added fresh hp]
      by (simp add: promote_async.simps[of s rid m])
  next
    case (Cascade s' p)
    then show ?thesis
      using st "1.IH"[OF Cascade] by (simp add: promote_async.simps[of s rid m])
  qed
qed

lemma initial_loop_sorted:
  "sorted_below_final s \<Longrightarrow> sorted_below_final (snd (initial_loop s ids hps ks ops))"
  by (induction s ids hps ks ops rule: initial_loop.induct) (auto split: list.split)

lemma purge_metrics_sorted:
  assumes "sorted_below_final s"
  shows "sorted_below_final (purge_metrics rid h s)"
  unfolding sorted_below_final_def
proof (intro allI impI)
  fix i assume i: "i < length (rungs (purge_metrics rid h s))"
    "int i \<noteq> num_rungs (purge_metrics rid h s) - 1"
  then have i': "i < length (rungs s)" "int i \<noteq> num_rungs s - 1" by simp_all
  then have "sorted (map metric (metrics (rungs s ! i)))"
    using assms by (simp add: sorted_below_final_def)
  then have "sorted (map metric (filter (\<lambda>x. request_id x \<noteq> rid) (metrics (rungs s ! i))))"
    by (simp add: sorted_map sorted_wrt_filter)
  then show "sorted (map metric (metrics (rungs (purge_metrics rid h s) ! i)))"
    using i' \<open>sorted (map metric (metrics (rungs s ! i)))\<close> by (simp add: purge_metrics_nth)
qed

lemma handle_sorted:
  assumes "sorted_below_final s"
  shows "sorted_below_final (snd (handle s ev))"
proof (cases ev)
  case (InitialOperations ids hps)
  then show ?thesis
    using assms
    by (simp add: initial_operations_def initial_loop_sorted split: sum.split)
next
  case (TrialCreated rid)
  then show ?thesis
    using sorted_below_final_outstanding[OF assms, of 0 "\<lambda>r. outstanding_trials r + 1"]
    by (simp add: on_trial_created_def assms)
next
  case (ValidationCompleted rid obj train_length fresh hp)
  then show ?thesis
    using assms by (simp add: on_validation_completed_def Let_def promote_async_sorted split: pyobj.split)
next
  case (TrialClosed rid)
  then show ?thesis using assms by (simp add: on_trial_closed_def Let_def)
next
  case (TrialExitedEarly rid exited_reason fresh hp)
  show ?thesis
  proof (cases "exited_reason = INVALID_HP")
    case True
    have "sorted_below_final (purge_metrics rid h
        (rung_update h (\<lambda>r. r\<lparr>outstanding_trials := outstanding_trials r - 1\<rparr>)
           (s\<lparr>pending_trials := a, early_exit_trials := b, closed_trials := c,
              invalid_trials := d\<rparr>)))" for h a b c d
      by (intro purge_metrics_sorted sorted_below_final_outstanding) (simp add: assms)
    then show ?thesis
      using TrialExitedEarly True assms
      by (simp add: on_trial_exited_early_def Let_def split: option.split)
  next
    case False
    then show ?thesis
      using TrialExitedEarly assms
      by (simp add: on_trial_exited_early_def Let_def promote_async_sorted)
  qed
qed

lemma run_sorted:
  "sorted_below_final s \<Longrightarrow> sorted_below_final (fst (run s emitted evs))"
proof (induction evs arbitrary: s emitted)
  case Nil
  then show ?case by simp
next
  case (Cons ev evs)
  obtain res s' where h: "handle s ev = (res, s')" by (cases "handle s ev")
  have "sorted_below_final s'" using handle_sorted[OF Cons.prems, of ev] h by simp
  then show ?case using Cons.IH[of s'] h by (cases res) simp_all
qed

lemma init_rungs_loop_metrics:
  "init_rungs_loop ml nr d ks u rs = Inr rs' \<Longrightarrow> \<forall>r \<in> set rs. metrics r = [] \<Longrightarrow>
   \<forall>r \<in> set rs'. metrics r = []"
proof (induction ks arbitrary: u rs)
  case Nil
  then show ?case by simp
next
  case (Cons k ks)
  from Cons.prems(1) have nz: "(of_int d :: real) ^ nat (nr - int k - 1) \<noteq> 0"
    by (auto simp: Let_def split: if_splits)
  let ?u = "u + max (py_trunc (of_int ml / (of_int d :: real) ^ nat (nr - int k - 1))) 1"
  have "init_rungs_loop ml nr d ks ?u (rs @ [Rung_new ?u (int k)]) = Inr rs'"
    using Cons.prems(1) nz by (simp add: Let_def split: if_splits)
  moreover have "\<forall>r \<in> set (rs @ [Rung_new ?u (int k)]). metrics r = []"
    using Cons.prems(2) by (simp add: Rung_new_def)
  ultimately show ?case by (rule Cons.IH)
qed

lemma init_sorted:
  assumes "ASHASearchMethodState_init ml mt nr d mct = Inr s0"
  shows "sorted_below_final s0"
proof -
  from assms obtain rs where rs: "init_rungs ml nr d = Inr rs" and s0: "rungs s0 = rs"
    by (auto simp: ASHASearchMethodState_init_def split: sum.splits)
  have "\<forall>r \<in> set rs. metrics r = []"
    using init_rungs_loop_metrics[of ml nr d "[0..<nat nr]" 0 "[]" rs] rs
    by (simp add: init_rungs_def)
  then show ?thesis by (simp add: sorted_below_final_def s0)
qed

text \<open>
  C2 (as amended). From a freshly constructed state, after any sequence of events, each
  handled to its return or to the exception it raises, every rung other than the final
  one has its metrics list nondecreasing in the metric value.
\<close>

theorem rungs_below_final_stay_sorted:
  assumes "ASHASearchMethodState_init ml mt nr d mct = Inr s0"
  shows "sorted_below_final (fst (run s0 [] evs))"
  by (rule run_sorted[OF init_sorted[OF assms]])

theorem rungs_below_final_stay_sorted_witness:
  "ASHASearchMethodState_init 8 3 2 2 0 =
     Inr \<lparr>max_length = 8, max_trials = 3, num_rungs = 2, divisor = 2,
          max_concurrent_trials = 0, is_smaller_better = True,
          rungs = [Rung_new 4 0, Rung_new 12 1], trial_rungs = Map.empty,
          pending_trials = 0, completed_trials = 0, invalid_trials = 0,
          early_exit_trials = {}, closed_trials = {}\<rparr> \<and>
   sorted_below_final (fst (run
     \<lparr>max_length = 8, max_trials = 3, num_rungs = 2, divisor = 2,
      max_concurrent_trials = 0, is_smaller_better = True,
      rungs = [Rung_new 4 0, Rung_new 12 1], trial_rungs = Map.empty,
      pending_trials = 0, completed_trials = 0, invalid_trials = 0,
      early_exit_trials = {}, closed_trials = {}\<rparr> []
     [InitialOperations (\<lambda>k. k + 1) (\<lambda>k. ()), TrialCreated 1, TrialCreated 2,
      ValidationCompleted 1 (PyFloat 5) 4 3 (), ValidationCompleted 2 (PyFloat 3) 4 3 ()]))"
proof -
  have a: "ASHASearchMethodState_init 8 3 2 2 0 =
     Inr \<lparr>max_length = 8, max_trials = 3, num_rungs = 2, divisor = 2,
          max_concurrent_trials = 0, is_smaller_better = True,
          rungs = [Rung_new 4 0, Rung_new 12 1], trial_rungs = Map.empty,
          pending_trials = 0, completed_trials = 0, invalid_trials = 0,
          early_exit_trials = {}, closed_trials = {}\<rparr>"
    by (simp add: ASHASearchMethodState_init_def init_rungs_def py_trunc_def Let_def
        upt_conv_Cons numeral_2_eq_2)
  show ?thesis by (rule conjI[OF a rungs_below_final_stay_sorted[OF a]])
qed

text \<open>
  C2 (as stated) fails at the final rung, where a result is appended: with a single
  rung, the metrics 5 and then 3 leave the list \<open>[5, 3]\<close>.
\<close>

theorem final_rung_unsorted_counterexample:
  "ASHASearchMethodState_init 8 3 1 2 0 =
     Inr \<lparr>max_length = 8, max_trials = 3, num_rungs = 1, divisor = 2,
          max_concurrent_trials = 0, is_smaller_better = True,
          rungs = [Rung_new 8 0], trial_rungs = Map.empty,
          pending_trials = 0, completed_trials = 0, invalid_trials = 0,
          early_exit_trials = {}, closed_trials = {}\<rparr> \<and>
   map metric (metrics (rungs (fst (run
     \<lparr>max_length = 8, max_trials = 3, num_rungs = 1, divisor = 2,
      max_concurrent_trials = 0, is_smaller_better = True,
      rungs = [Rung_new 8 0], trial_rungs = Map.empty,
      pending_trials = 0, completed_trials = 0, invalid_trials = 0,
      early_exit_trials = {}, closed_trials = {}\<rparr> []
     [InitialOperations (\<lambda>k. 1) (\<lambda>k. ()), TrialCreated 1,
      ValidationCompleted 1 (PyFloat 5) 8 2 (), TrialCreated 2,
      ValidationCompleted 2 (PyFloat 3) 8 3 ()])) ! 0)) = [5, 3] \<and>
   \<not> sorted [5, 3 :: real]"
  by (simp add: ASHASearchMethodState_init_def init_rungs_def py_trunc_def Let_def
      initial_operations_def get_max_concurrent_trials_def py_pow_def
      on_trial_created_def on_validation_completed_def promote_async.simps promote_step_def
      promote_finish_def rung_update_def Rung_new_def TrialMetric_new_def)

section \<open>Each trial is closed at most once\<close>

lemma closed_ids_append [simp]: "closed_ids (a @ b) = closed_ids a @ closed_ids b"
  by (induction a rule: closed_ids.induct) simp_all

lemma closes_fresh_trans:
  assumes "closes_fresh s ops1 s1" "closes_fresh s1 ops2 s2"
  shows "closes_fresh s (ops1 @ ops2) s2"
  using assms unfolding closes_fresh_def by auto

lemma closes_fresh_weaken:
  assumes "closes_fresh s1 ops s'" "closed_trials s \<subseteq> closed_trials s1"
  shows "closes_fresh s ops s'"
  using assms unfolding closes_fresh_def by auto

lemma closes_fresh_skip [simp]:
  "closes_fresh s (Create a b # ops) s' = closes_fresh s ops s'"
  "closes_fresh s (ValidateAfter a n # ops) s' = closes_fresh s ops s'"
  "closes_fresh s (Shutdown # ops) s' = closes_fresh s ops s'"
  by (simp_all add: closes_fresh_def)

lemma closes_fresh_Nil [simp]:
  "closes_fresh s [] s' = (closed_trials s \<subseteq> closed_trials s')"
  by (simp add: closes_fresh_def)

lemma close_metrics_fresh:
  "closes_fresh s (fst (close_metrics tms s :: 'h operation list \<times> ASHASearchMethodState))
     (snd (close_metrics tms s :: 'h operation list \<times> ASHASearchMethodState))"
proof (induction tms arbitrary: s)
  case Nil
  show ?case by simp
next
  case (Cons tm tms)
  show ?case
  proof (cases "\<not> promoted tm \<and> request_id tm \<notin> closed_trials s \<and>
      request_id tm \<notin> early_exit_trials s")
    case True
    define s1 where "s1 = s\<lparr>closed_trials := insert (request_id tm) (closed_trials s)\<rparr>"
    have ih: "closes_fresh s1
        (fst (close_metrics tms s1 :: 'h operation list \<times> ASHASearchMethodState))
        (snd (close_metrics tms s1 :: 'h operation list \<times> ASHASearchMethodState))"
      by (rule Cons.IH)
    have "closes_fresh s [Close (request_id tm) :: 'h operation] s1"
      using True by (simp add: closes_fresh_def s1_def)
    from closes_fresh_trans[OF this ih] show ?thesis
      using True by (simp add: split_beta s1_def)
  next
    case False
    then show ?thesis using Cons.IH[of s] by auto
  qed
qed

lemma close_rungs_fresh:
  "closes_fresh s (fst (close_rungs rs s :: 'h operation list \<times> ASHASearchMethodState))
     (snd (close_rungs rs s :: 'h operation list \<times> ASHASearchMethodState))"
proof (induction rs arbitrary: s)
  case Nil
  show ?case by simp
next
  case (Cons r rs)
  show ?case
  proof (cases "outstanding_trials r > 0")
    case True
    then show ?thesis by simp
  next
    case False
    define s1 where
      "s1 = snd (close_metrics (metrics r) s :: 'h operation list \<times> ASHASearchMethodState)"
    have a: "closes_fresh s
        (fst (close_metrics (metrics r) s :: 'h operation list \<times> ASHASearchMethodState)) s1"
      unfolding s1_def by (rule close_metrics_fresh)
    have b: "closes_fresh s1
        (fst (close_rungs rs s1 :: 'h operation list \<times> ASHASearchMethodState))
        (snd (close_rungs rs s1 :: 'h operation list \<times> ASHASearchMethodState))"
      by (rule Cons.IH)
    from closes_fresh_trans[OF a b]
    show ?thesis using False by (simp add: split_beta s1_def)
  qed
qed

lemma get_close_rungs_ops_fresh:
  "closes_fresh s (fst (get_close_rungs_ops s :: 'h operation list \<times> ASHASearchMethodState))
     (snd (get_close_rungs_ops s :: 'h operation list \<times> ASHASearchMethodState))"
  unfolding get_close_rungs_ops_def by (rule close_rungs_fresh)

lemma get_close_rungs_ops_fresh':
  assumes "closed_trials s = closed_trials t"
  shows "closes_fresh t
     (fst (get_close_rungs_ops s :: 'h operation list \<times> ASHASearchMethodState))
     (snd (get_close_rungs_ops s :: 'h operation list \<times> ASHASearchMethodState))"
  by (rule closes_fresh_weaken[OF get_close_rungs_ops_fresh]) (simp add: assms)

lemma promote_finish_fresh:
  assumes "promote_finish s ops added fresh hp = (Inr ops', s')"
  shows "\<exists>ops2. ops' = ops @ ops2 \<and> closes_fresh s ops2 s'"
  using assms
  by (auto simp: promote_finish_def Let_def split_beta get_close_rungs_ops_fresh'
      split: if_splits list.splits)

lemma promote_rung_closed:
  "promote_rung s r rid m = (Finish s1 ops1 added :: 'h step) \<Longrightarrow>
     closed_ids ops1 = [] \<and> closed_trials s1 = closed_trials s"
  "promote_rung s r rid m = (Cascade s1 p :: 'h step) \<Longrightarrow>
     closed_trials s1 = closed_trials s \<and> p \<in> early_exit_trials s1"
  by (auto simp: promote_rung_def rung_update_def Let_def
      split: if_splits prod.splits sum.splits list.splits)

lemma promote_step_closed:
  "promote_step s rid m = (Finish s1 ops1 added :: 'h step) \<Longrightarrow>
     rid \<notin> closed_trials s \<or> rid \<in> early_exit_trials s \<Longrightarrow> closes_fresh s ops1 s1"
  "promote_step s rid m = (Cascade s1 p :: 'h step) \<Longrightarrow>
     closed_trials s1 = closed_trials s \<and> p \<in> early_exit_trials s1"
proof -
  assume a: "promote_step s rid m = (Finish s1 ops1 added :: 'h step)"
    and b: "rid \<notin> closed_trials s \<or> rid \<in> early_exit_trials s"
  show "closes_fresh s ops1 s1"
  proof (cases "trial_rungs s rid")
    case None
    then show ?thesis using a by (simp add: promote_step_def)
  next
    case (Some r)
    define t where
      "t = rung_update r (\<lambda>r. r\<lparr>outstanding_trials := outstanding_trials r - 1\<rparr>) s"
    have t: "closed_trials t = closed_trials s" "early_exit_trials t = early_exit_trials s"
      "num_rungs t = num_rungs s"
      by (simp_all add: t_def rung_update_def)
    show ?thesis
    proof (cases "int r = num_rungs s - 1")
      case True
      then show ?thesis using a b Some
        by (auto simp: promote_step_def Let_def rung_update_def
            closes_fresh_def split: if_splits)
    next
      case False
      then have "promote_rung t r rid m = (Finish s1 ops1 added :: 'h step)"
        using a Some
        by (simp add: promote_step_def Let_def t_def rung_update_def split: if_splits)
      from promote_rung_closed(1)[OF this] show ?thesis
        by (simp add: closes_fresh_def t)
    qed
  qed
next
  assume a: "promote_step s rid m = (Cascade s1 p :: 'h step)"
  show "closed_trials s1 = closed_trials s \<and> p \<in> early_exit_trials s1"
  proof (cases "trial_rungs s rid")
    case None
    then show ?thesis using a by (simp add: promote_step_def)
  next
    case (Some r)
    define t where
      "t = rung_update r (\<lambda>r. r\<lparr>outstanding_trials := outstanding_trials r - 1\<rparr>) s"
    have t: "closed_trials t = closed_trials s"
      by (simp add: t_def rung_update_def)
    have "promote_rung t r rid m = (Cascade s1 p :: 'h step)"
      using a Some
      by (simp add: promote_step_def Let_def t_def rung_update_def split: if_splits)
    from promote_rung_closed(2)[OF this] show ?thesis by (simp add: t)
  qed
qed

lemma promote_async_fresh:
  "promote_async s rid m fresh hp = (Inr ops, s') \<Longrightarrow>
   rid \<notin> closed_trials s \<or> rid \<in> early_exit_trials s \<Longrightarrow> closes_fresh s ops s'"
proof (induction s rid m fresh hp rule: promote_async.induct)
  case (1 s rid m fresh hp)
  show ?case
  proof (cases "promote_step s rid m :: 'a step")
    case (Raise e t)
    then show ?thesis using "1.prems"(1) by (simp add: promote_async.simps[of s rid m])
  next
    case (Finish t ops1 added)
    have a: "closes_fresh s ops1 t" by (rule promote_step_closed(1)[OF Finish "1.prems"(2)])
    have "promote_finish t ops1 added fresh hp = (Inr ops, s')"
      using "1.prems"(1) Finish by (simp add: promote_async.simps[of s rid m])
    from promote_finish_fresh[OF this] obtain ops2
      where o: "ops = ops1 @ ops2" and b: "closes_fresh t ops2 s'" by blast
    show ?thesis unfolding o by (rule closes_fresh_trans[OF a b])
  next
    case (Cascade t p)
    have c: "closed_trials t = closed_trials s" "p \<in> early_exit_trials t"
      using promote_step_closed(2)[OF Cascade] by simp_all
    have "promote_async t p float_max fresh hp = (Inr ops, s')"
      using "1.prems"(1) Cascade by (simp add: promote_async.simps[of s rid m])
    from "1.IH"[OF Cascade this] c(2) have "closes_fresh t ops s'" by simp
    then show ?thesis by (rule closes_fresh_weaken) (simp add: c(1))
  qed
qed

lemma initial_loop_closed:
  "initial_loop s ids hps ks acc = (Inr ops, s') \<Longrightarrow>
   closed_ids ops = closed_ids acc \<and> closed_trials s' = closed_trials s"
proof (induction s ids hps ks acc rule: initial_loop.induct)
  case (1 s ids hps ops)
  then show ?case by simp
next
  case (2 s ids hps k ks acc)
  show ?case
  proof (cases "rungs s")
    case Nil
    then show ?thesis using "2.prems" by simp
  next
    case (Cons r0 rs)
    from "2.IH"[OF Cons] "2.prems" Cons show ?thesis by simp
  qed
qed

lemma handle_fresh:
  assumes "handle s ev = (Inr ops, s')" and "event_allowed s ev"
  shows "closes_fresh s ops s'"
proof (cases ev)
  case (InitialOperations ids hps)
  then have "closed_ids ops = [] \<and> closed_trials s' = closed_trials s"
    using assms(1) initial_loop_closed[of s ids hps _ "[]" ops s']
    by (auto simp: initial_operations_def split: sum.splits)
  then show ?thesis by (simp add: closes_fresh_def)
next
  case (TrialCreated rid)
  then show ?thesis using assms(1)
    by (auto simp: on_trial_created_def rung_update_def split: if_splits)
next
  case (ValidationCompleted rid obj train_length fresh hp)
  then obtain m where obj: "obj = PyFloat m"
    using assms(1) by (cases obj) (simp_all add: on_validation_completed_def)
  define s1 where "s1 = s\<lparr>pending_trials := pending_trials s - 1\<rparr>"
  define m' where "m' = (if is_smaller_better s1 = False then m * (- 1) else m)"
  have p: "promote_async s1 rid m' fresh hp = (Inr ops, s')"
    using assms(1) ValidationCompleted obj
    by (simp add: on_validation_completed_def Let_def s1_def m'_def)
  have "rid \<notin> closed_trials s1" using assms(2) ValidationCompleted by (simp add: s1_def)
  then have "closes_fresh s1 ops s'" using promote_async_fresh[OF p] by simp
  then show ?thesis by (rule closes_fresh_weaken) (simp add: s1_def)
next
  case (TrialClosed rid)
  then show ?thesis using assms(1)
    by (auto simp: on_trial_closed_def Let_def split: if_splits)
next
  case (TrialExitedEarly rid reason fresh hp)
  have nc: "rid \<notin> closed_trials s" using assms(2) TrialExitedEarly by simp
  show ?thesis
  proof (cases "reason = INVALID_HP")
    case True
    then show ?thesis using assms(1) TrialExitedEarly nc
      by (auto simp: on_trial_exited_early_def Let_def closes_fresh_def rung_update_def
          split: option.splits if_splits)
  next
    case False
    define s2 where "s2 = s\<lparr>pending_trials := pending_trials s - 1,
        early_exit_trials := insert rid (early_exit_trials s),
        closed_trials := insert rid (closed_trials s)\<rparr>"
    have p: "promote_async s2 rid float_max fresh hp = (Inr ops, s')"
      using assms(1) TrialExitedEarly False
      by (simp add: on_trial_exited_early_def Let_def s2_def)
    have "rid \<in> early_exit_trials s2" by (simp add: s2_def)
    then have "closes_fresh s2 ops s'" using promote_async_fresh[OF p] by simp
    then show ?thesis by (rule closes_fresh_weaken) (auto simp: s2_def)
  qed
qed

lemma run_closes_once:
  "disciplined s evs \<Longrightarrow> distinct (closed_ids emitted) \<Longrightarrow>
   set (closed_ids emitted) \<subseteq> closed_trials s \<Longrightarrow>
   distinct (closed_ids (snd (run s emitted evs)))"
proof (induction evs arbitrary: s emitted)
  case Nil
  then show ?case by simp
next
  case (Cons ev evs)
  obtain res s' where h: "handle s ev = (res, s')" by (cases "handle s ev")
  show ?case
  proof (cases res)
    case (Inl e)
    show ?thesis using Cons.prems(2) h Inl by simp
  next
    case (Inr ops)
    have ea: "event_allowed s ev" and d: "disciplined s' evs"
      using Cons.prems(1) h Inr by simp_all
    have f: "closes_fresh s ops s'" by (rule handle_fresh[OF _ ea]) (simp add: h Inr)
    have "distinct (closed_ids (emitted @ ops))"
      using f Cons.prems(2,3) by (auto simp: closes_fresh_def)
    moreover have "set (closed_ids (emitted @ ops)) \<subseteq> closed_trials s'"
      using f Cons.prems(3) by (auto simp: closes_fresh_def)
    ultimately show ?thesis using Cons.IH[OF d] h Inr by simp
  qed
qed

text \<open>
  C3 (amended). Across any run from a freshly constructed state in which the runner
  delivers no \<^verbatim>\<open>ValidationCompleted\<close> and no \<^verbatim>\<open>TrialExitedEarly\<close> for a trial that is in
  \<^verbatim>\<open>closed_trials\<close> at that moment, no trial id is the subject of more than one emitted
  \<^verbatim>\<open>Close\<close> operation. The run may end with an exception; the operations counted are
  those returned by the handlers before it.
\<close>

theorem close_emitted_once:
  assumes "ASHASearchMethodState_init ml mt nr d mct = Inr s0"
    and "disciplined s0 evs"
  shows "distinct (closed_ids (snd (run s0 [] evs)))"
proof -
  have "closed_trials s0 = {}"
    using assms(1)
    by (auto simp: ASHASearchMethodState_init_def split: sum.splits)
  then show ?thesis using run_closes_once[OF assms(2), of "[]"] by simp
qed

theorem close_emitted_once_witness:
  "let s0 = \<lparr>max_length = 8, max_trials = 2, num_rungs = 1, divisor = 2,
        max_concurrent_trials = 0, is_smaller_better = True,
        rungs = [Rung_new 8 0], trial_rungs = Map.empty,
        pending_trials = 0, completed_trials = 0, invalid_trials = 0,
        early_exit_trials = {}, closed_trials = {}\<rparr>;
       evs = [InitialOperations (\<lambda>k. 1) (\<lambda>k. ()), TrialCreated 1,
        ValidationCompleted 1 (PyFloat 5) 8 2 (), TrialCreated 2, TrialClosed 1,
        ValidationCompleted 2 (PyFloat 3) 8 3 (), TrialClosed 2]
   in ASHASearchMethodState_init 8 2 1 2 0 = Inr s0 \<and> disciplined s0 evs \<and>
      distinct (closed_ids (snd (run s0 [] evs))) \<and>
      closed_ids (snd (run s0 [] evs)) = [1, 2]"
proof -
  let ?s0 = "\<lparr>max_length = 8, max_trials = 2, num_rungs = 1, divisor = 2,
        max_concurrent_trials = 0, is_smaller_better = True,
        rungs = [Rung_new 8 0], trial_rungs = Map.empty,
        pending_trials = 0, completed_trials = 0, invalid_trials = 0,
        early_exit_trials = {}, closed_trials = {}\<rparr>"
  let ?evs = "[InitialOperations (\<lambda>k. 1) (\<lambda>k. ()), TrialCreated 1,
        ValidationCompleted 1 (PyFloat 5) 8 2 (), TrialCreated 2, TrialClosed 1,
        ValidationCompleted 2 (PyFloat 3) 8 3 (), TrialClosed 2]"
  have a: "ASHASearchMethodState_init 8 2 1 2 0 = Inr ?s0"
    by (simp add: ASHASearchMethodState_init_def init_rungs_def py_trunc_def Let_def)
  have b: "disciplined ?s0 ?evs"
    by (simp add: initial_operations_def get_max_concurrent_trials_def py_pow_def
      py_trunc_def Let_def get_close_rungs_ops_def on_trial_closed_def
      on_trial_created_def on_validation_completed_def promote_async.simps promote_step_def
      promote_finish_def rung_update_def Rung_new_def TrialMetric_new_def)
  have c: "closed_ids (snd (run ?s0 [] ?evs)) = [1, 2]"
    by (simp add: initial_operations_def get_max_concurrent_trials_def py_pow_def
      py_trunc_def Let_def get_close_rungs_ops_def on_trial_closed_def
      on_trial_created_def on_validation_completed_def promote_async.simps promote_step_def
      promote_finish_def rung_update_def Rung_new_def TrialMetric_new_def)
  show ?thesis unfolding Let_def
    by (rule conjI[OF a conjI[OF b conjI[OF close_emitted_once[OF a b] c]]])
qed

text \<open>
  C3 (as stated) fails for a run in which a trial reports again after it was closed: with
  a single rung, two validations of trial 1 emit \<^verbatim>\<open>Close\<close> for it twice.
\<close>

theorem close_emitted_twice_counterexample:
  "ASHASearchMethodState_init 8 3 1 2 0 =
     Inr \<lparr>max_length = 8, max_trials = 3, num_rungs = 1, divisor = 2,
          max_concurrent_trials = 0, is_smaller_better = True,
          rungs = [Rung_new 8 0], trial_rungs = Map.empty,
          pending_trials = 0, completed_trials = 0, invalid_trials = 0,
          early_exit_trials = {}, closed_trials = {}\<rparr> \<and>
   snd (run
     \<lparr>max_length = 8, max_trials = 3, num_rungs = 1, divisor = 2,
      max_concurrent_trials = 0, is_smaller_better = True,
      rungs = [Rung_new 8 0], trial_rungs = Map.empty,
      pending_trials = 0, completed_trials = 0, invalid_trials = 0,
      early_exit_trials = {}, closed_trials = {}\<rparr> []
     [InitialOperations (\<lambda>k. 1) (\<lambda>k. ()), TrialCreated 1,
      ValidationCompleted 1 (PyFloat 5) 8 2 (),
      ValidationCompleted 1 (PyFloat 5) 8 3 ()]) =
     [Create 1 (), ValidateAfter 1 8, Close 1, Create 2 (), ValidateAfter 2 8,
      Close 1, Create 3 (), ValidateAfter 3 8] \<and>
   \<not> distinct (closed_ids
     [Create 1 (), ValidateAfter 1 8, Close 1, Create 2 (), ValidateAfter 2 8,
      Close 1, Create 3 (), ValidateAfter 3 8])"
  by (simp add: ASHASearchMethodState_init_def init_rungs_def py_trunc_def Let_def
      initial_operations_def get_max_concurrent_trials_def py_pow_def
      on_trial_created_def on_validation_completed_def promote_async.simps promote_step_def
      promote_finish_def rung_update_def Rung_new_def TrialMetric_new_def)

end
